theory Spec2Isabelle
  imports Main "HOL-Library.Word" "HOL-Library.Sublist"
begin

text \<open>
  The back end of Spartan Read Aloud, a Google Apps Script project: \<open>Code.js\<close> finds the
  PDF files of a Drive folder, counts the numbered items of their text, has an audio file
  made for every item and records the files in a sheet, from which \<open>getAssessmentPdf\<close>
  serves a document and its audio to a student; \<open>Gemini.js\<close> asks the speech service for
  the audio and wraps the samples in a WAV container. The functions of the two files are
  HOL functions here. What the script reads from Drive, from the speech service and from
  the clock is a record of answers that the functions take; what it changes is a record
  that they return.
\<close>

section \<open>Strings of the script\<close>

text \<open>
  A JavaScript string is a sequence of 16-bit code units; \<open>length\<close>, \<open>substring\<close>,
  \<open>split\<close> and the regular expressions of the script all count and match code units.
  \<open>js\<close> writes an ASCII literal as such a sequence.
\<close>

type_synonym uchar = "16 word"
type_synonym jsstring = "uchar list"
type_synonym byte = "8 word"

definition js :: "string \<Rightarrow> jsstring" where
  "js s = map (\<lambda>c. of_nat (of_char c)) s"

text \<open>The class \<open>\s\<close> of a regular expression, which is also what \<open>trim\<close> strips:
  tab, line feed, vertical tab, form feed, carriage return, space, no-break space,
  U+1680, U+2000 to U+200A, U+2028, U+2029, U+202F, U+205F, U+3000 and U+FEFF.\<close>

definition is_space :: "uchar \<Rightarrow> bool" where
  "is_space c =
     (unat c = 9 \<or> unat c = 10 \<or> unat c = 11 \<or> unat c = 12 \<or> unat c = 13 \<or> unat c = 32
      \<or> unat c = 160 \<or> unat c = 0x1680 \<or> (0x2000 \<le> unat c \<and> unat c \<le> 0x200A)
      \<or> unat c = 0x2028 \<or> unat c = 0x2029 \<or> unat c = 0x202F \<or> unat c = 0x205F
      \<or> unat c = 0x3000 \<or> unat c = 0xFEFF)"

text \<open>\<open>\d\<close> is \<open>[0-9]\<close> and \<open>\w\<close> is \<open>[A-Za-z0-9_]\<close>.\<close>

definition is_digit :: "uchar \<Rightarrow> bool" where
  "is_digit c = (48 \<le> unat c \<and> unat c \<le> 57)"

definition is_word :: "uchar \<Rightarrow> bool" where
  "is_word c =
     ((65 \<le> unat c \<and> unat c \<le> 90) \<or> (97 \<le> unat c \<and> unat c \<le> 122) \<or> is_digit c \<or> unat c = 95)"

definition hyphen :: uchar where "hyphen = 45"
definition dot :: uchar where "dot = 46"
definition newline :: uchar where "newline = 10"
definition space :: uchar where "space = 32"
definition comma :: uchar where "comma = 44"
definition slash :: uchar where "slash = 47"
definition semicolon :: uchar where "semicolon = 59"

text \<open>The characters of \<open>[A-Za-z0-9_-]\<close>.\<close>

definition is_name_char :: "uchar \<Rightarrow> bool" where
  "is_name_char c = (is_word c \<or> c = hyphen)"

text \<open>The decimal digits of a non-negative integer, as a template literal prints a
  loop counter.\<close>

fun dec :: "nat \<Rightarrow> jsstring" where
  "dec n = (if n < 10 then [of_nat (48 + n)] else dec (n div 10) @ [of_nat (48 + n mod 10)])"

declare dec.simps [simp del]

text \<open>\<open>s.trim()\<close>.\<close>

definition trim :: "jsstring \<Rightarrow> jsstring" where
  "trim s = rev (dropWhile is_space (rev (dropWhile is_space s)))"

text \<open>The letters \<open>A\<close> to \<open>Z\<close> lowered and every other code unit kept. This is how the
  flag \<open>i\<close> of a regular expression without the flag \<open>u\<close> compares a code unit with a letter
  of \<open>.pdf\<close>: both are taken to upper case, and a code unit from 128 on is never taken to
  one below 128, so that \<open>p\<close> matches \<open>p\<close> and \<open>P\<close> only. It is also what
  \<open>String.prototype.toLowerCase\<close> does to a string of ASCII; on other strings
  \<open>toLowerCase\<close> is not this function, and the lookup takes it from the environment below.\<close>

definition lower_char :: "uchar \<Rightarrow> uchar" where
  "lower_char c = (if 65 \<le> unat c \<and> unat c \<le> 90 then c + 32 else c)"

definition ascii_lower :: "jsstring \<Rightarrow> jsstring" where
  "ascii_lower s = map lower_char s"

text \<open>\<open>s.split(/\s+/)\<close>: the pieces between the maximal runs of whitespace; a run at the
  start or at the end leaves an empty piece there, and the empty string gives one empty piece.\<close>

function split_ws :: "jsstring \<Rightarrow> jsstring list" where
  "split_ws [] = [[]]"
| "split_ws (c # cs) =
     (if is_space c then [] # split_ws (dropWhile is_space cs)
      else (case split_ws cs of [] \<Rightarrow> [[c]] | w # ws \<Rightarrow> (c # w) # ws))"
  by pat_completeness auto
termination
  by (relation "measure length") (auto simp: length_dropWhile_le le_imp_less_Suc)

text \<open>\<open>s.split(',')\<close> for a one-character separator.\<close>

fun split_on :: "uchar \<Rightarrow> jsstring \<Rightarrow> jsstring list" where
  "split_on d [] = [[]]"
| "split_on d (c # cs) =
     (if c = d then [] # split_on d cs
      else (case split_on d cs of [] \<Rightarrow> [[c]] | w # ws \<Rightarrow> (c # w) # ws))"

text \<open>\<open>words.join(' ')\<close>.\<close>

fun join :: "jsstring \<Rightarrow> jsstring list \<Rightarrow> jsstring" where
  "join sep [] = []"
| "join sep [w] = w"
| "join sep (w # v # ws) = w @ sep @ join sep (v # ws)"

text \<open>\<open>s.replace(/\s+/g, '-')\<close>: every maximal run of whitespace becomes one hyphen.\<close>

function hyphenate :: "jsstring \<Rightarrow> jsstring" where
  "hyphenate [] = []"
| "hyphenate (c # cs) =
     (if is_space c then hyphen # hyphenate (dropWhile is_space cs) else c # hyphenate cs)"
  by pat_completeness auto
termination
  by (relation "measure length") (auto simp: length_dropWhile_le le_imp_less_Suc)


section \<open>Naming of the audio files (Code.js)\<close>

text \<open>The local \<open>sanitized\<close> of \<open>generateSafeFilenameFromText\<close>: the first six words
  joined by spaces, then \<open>replace(/[^\w\s-]/g, '')\<close>, then \<open>replace(/\s+/g, '-')\<close>.\<close>

definition firstWords :: "jsstring \<Rightarrow> jsstring" where
  "firstWords text = join [space] (take 6 (split_ws text))"

definition sanitized :: "jsstring \<Rightarrow> jsstring" where
  "sanitized text =
     hyphenate (filter (\<lambda>c. is_word c \<or> is_space c \<or> c = hyphen) (firstWords text))"

definition chunk_suffix :: "nat \<Rightarrow> jsstring" where
  "chunk_suffix chunkIndex = js ''-chunk-'' @ dec (chunkIndex + 1) @ js ''.wav''"

definition generateSafeFilenameFromText :: "jsstring \<Rightarrow> nat \<Rightarrow> jsstring" where
  "generateSafeFilenameFromText text chunkIndex =
     (let fullName = sanitized text @ chunk_suffix chunkIndex
      in take 250 fullName)"

text \<open>\<open>url.match(/\/d\/([a-zA-Z0-9_-]+)/)\<close>: the leftmost \<open>/d/\<close> that is followed by a
  character of the class, and the longest run of the class from there.\<close>

fun getFileIdFromUrl :: "jsstring \<Rightarrow> jsstring option" where
  "getFileIdFromUrl [] = None"
| "getFileIdFromUrl (c # cs) =
     (if c = slash \<and> take 2 cs = [100, slash] \<and> takeWhile is_name_char (drop 2 cs) \<noteq> []
      then Some (takeWhile is_name_char (drop 2 cs))
      else getFileIdFromUrl cs)"


section \<open>Chunker (Code.js, extractTextFromPdf)\<close>

text \<open>The lookahead \<open>(?=\s*\d+\.\s)\<close> on the text after a line feed. Whitespace, digits
  and the period are disjoint, so the greedy match is the only one.\<close>

definition item_start :: "jsstring \<Rightarrow> bool" where
  "item_start s =
     (let r = dropWhile is_space s; t = dropWhile is_digit r
      in takeWhile is_digit r \<noteq> [] \<and>
         (case t of p # q # _ \<Rightarrow> p = dot \<and> is_space q | _ \<Rightarrow> False))"

text \<open>\<open>text.split(/\n(?=\s*\d+\.\s)/)\<close>: the line feed of a boundary is consumed, the
  text of the lookahead is not.\<close>

fun split_items :: "jsstring \<Rightarrow> jsstring list" where
  "split_items [] = [[]]"
| "split_items (c # cs) =
     (if c = newline \<and> item_start cs then [] # split_items cs
      else (case split_items cs of [] \<Rightarrow> [[c]] | w # ws \<Rightarrow> (c # w) # ws))"

definition chunk_text :: "jsstring \<Rightarrow> jsstring list" where
  "chunk_text text = filter (\<lambda>chunk. chunk \<noteq> []) (map trim (split_items text))"

text \<open>For the statements about the chunker: \<open>boundary_free p s\<close> says that the text \<open>p\<close>,
  when \<open>s\<close> follows it, has no line feed at which the regular expression matches.\<close>

fun boundary_free :: "jsstring \<Rightarrow> jsstring \<Rightarrow> bool" where
  "boundary_free [] s = True"
| "boundary_free (c # cs) s = (\<not> (c = newline \<and> item_start (cs @ s)) \<and> boundary_free cs s)"


section \<open>Container encoder (Gemini.js, createWavBlob)\<close>

text \<open>The \<open>DataView\<close> over the 44-byte buffer is a list of bytes. Every offset that
  \<open>createWavBlob\<close> writes lies inside the buffer, where a \<open>DataView\<close> does not throw.
  \<open>setUint8\<close>, \<open>setUint16\<close> and \<open>setUint32\<close> reduce the number modulo 256, 65536 and
  4294967296, and store the bytes low end first when \<open>littleEndian\<close> is true.\<close>

definition byte_of :: "nat \<Rightarrow> nat \<Rightarrow> byte" where
  "byte_of v k = of_nat ((v div 256 ^ k) mod 256)"

definition setUint8 :: "byte list \<Rightarrow> nat \<Rightarrow> nat \<Rightarrow> byte list" where
  "setUint8 view byteOffset v = view[byteOffset := byte_of v 0]"

definition setUint16 :: "byte list \<Rightarrow> nat \<Rightarrow> nat \<Rightarrow> bool \<Rightarrow> byte list" where
  "setUint16 view byteOffset v littleEndian =
     (if littleEndian
      then view[byteOffset := byte_of v 0, byteOffset + 1 := byte_of v 1]
      else view[byteOffset := byte_of v 1, byteOffset + 1 := byte_of v 0])"

definition setUint32 :: "byte list \<Rightarrow> nat \<Rightarrow> nat \<Rightarrow> bool \<Rightarrow> byte list" where
  "setUint32 view byteOffset v littleEndian =
     (if littleEndian
      then view[byteOffset := byte_of v 0, byteOffset + 1 := byte_of v 1,
                byteOffset + 2 := byte_of v 2, byteOffset + 3 := byte_of v 3]
      else view[byteOffset := byte_of v 3, byteOffset + 1 := byte_of v 2,
                byteOffset + 2 := byte_of v 1, byteOffset + 3 := byte_of v 0])"

fun writeString :: "byte list \<Rightarrow> nat \<Rightarrow> jsstring \<Rightarrow> byte list" where
  "writeString view offset [] = view"
| "writeString view offset (c # cs) = writeString (setUint8 view offset (unat c)) (offset + 1) cs"

definition sampleRate :: nat where "sampleRate = 24000"
definition numChannels :: nat where "numChannels = 1"
definition bitsPerSample :: nat where "bitsPerSample = 16"
definition byteRate :: nat where "byteRate = sampleRate * numChannels * bitsPerSample div 8"
definition blockAlign :: nat where "blockAlign = numChannels * bitsPerSample div 8"

definition wav_header :: "nat \<Rightarrow> byte list" where
  "wav_header dataSize =
     (let fileSize = 36 + dataSize;
          view = replicate 44 0;
          view = writeString view 0 (js ''RIFF'');
          view = setUint32 view 4 fileSize True;
          view = writeString view 8 (js ''WAVE'');
          view = writeString view 12 (js ''fmt '');
          view = setUint32 view 16 16 True;
          view = setUint16 view 20 1 True;
          view = setUint16 view 22 numChannels True;
          view = setUint32 view 24 sampleRate True;
          view = setUint32 view 28 byteRate True;
          view = setUint16 view 32 blockAlign True;
          view = setUint16 view 34 bitsPerSample True;
          view = writeString view 36 (js ''data'');
          view = setUint32 view 40 dataSize True
      in view)"

definition createWavBlob :: "byte list \<Rightarrow> byte list" where
  "createWavBlob pcmData = wav_header (length pcmData) @ pcmData"

text \<open>Reading a header back: the unsigned little-endian fields of a byte sequence.\<close>

definition getUint16 :: "byte list \<Rightarrow> nat \<Rightarrow> nat" where
  "getUint16 bs off = unat (bs ! off) + 256 * unat (bs ! (off + 1))"

definition getUint32 :: "byte list \<Rightarrow> nat \<Rightarrow> nat" where
  "getUint32 bs off =
     unat (bs ! off) + 256 * unat (bs ! (off + 1)) + 65536 * unat (bs ! (off + 2))
       + 16777216 * unat (bs ! (off + 3))"

text \<open>The bytes of an ASCII tag.\<close>

definition tag :: "string \<Rightarrow> byte list" where
  "tag s = map (\<lambda>c. of_nat (of_char c)) s"

section \<open>Ledger, Drive and the calls to the outside\<close>

text \<open>
  \<open>getValues()\<close> gives a string, a number or a boolean for every cell, and the empty
  string for a blank one. Numbers are the integers here (a count, a numeric password);
  dates and fractions are outside the model.
\<close>

datatype cell = Str jsstring | Num int | Bool bool

definition blank :: cell where "blank = Str []"

text \<open>The truth value of a cell in a condition, and \<open>cell.toString()\<close> (the decimal
  digits of an integer, which is what the language prints below \<open>10^21\<close>).\<close>

fun truthy :: "cell \<Rightarrow> bool" where
  "truthy (Str s) = (s \<noteq> [])"
| "truthy (Num n) = (n \<noteq> 0)"
| "truthy (Bool b) = b"

fun cell_toString :: "cell \<Rightarrow> jsstring" where
  "cell_toString (Str s) = s"
| "cell_toString (Num n) = (if n < 0 then hyphen # dec (nat (- n)) else dec (nat n))"
| "cell_toString (Bool b) = (if b then js ''true'' else js ''false'')"

text \<open>The eight columns of \<open>COL\<close>, in the order of the sheet.\<close>

record row =
  PDF_URL :: cell
  CHUNK_COUNT :: cell
  AUDIO_JSON :: cell
  IS_COMPLETE :: cell
  CLASS_NAME :: cell
  INSTRUCTOR :: cell
  PASSWORD :: cell
  STUDENT_EMAILS :: cell

definition blank_row :: row where
  "blank_row = \<lparr>PDF_URL = blank, CHUNK_COUNT = blank, AUDIO_JSON = blank, IS_COMPLETE = blank,
      CLASS_NAME = blank, INSTRUCTOR = blank, PASSWORD = blank, STUDENT_EMAILS = blank\<rparr>"

text \<open>\<open>sheet.getDataRange().getValues()\<close>: the rows of the sheet, the header row first; a
  sheet without any content gives one row of blanks.\<close>

definition getValues :: "row list \<Rightarrow> row list" where
  "getValues rows = (if rows = [] then [blank_row] else rows)"

text \<open>A file of Drive: a source document or an audio file.\<close>

record drive_file =
  file_id :: jsstring
  file_name :: jsstring
  file_url :: jsstring
  is_pdf :: bool
  file_bytes :: "byte list"

text \<open>One record of the manifest that is written to the sheet.\<close>

record entry =
  entry_text :: jsstring
  audioUrl :: jsstring
  audioFilename :: jsstring

text \<open>
  What the script changes: the rows of the sheet \<open>Assessment Database\<close>, the subfolders of
  the main audio folder (by name, each with its files in the order in which an iterator
  gives them), and the requests that were sent to the speech service (text and file name,
  oldest first).
\<close>

record world =
  sheet :: "row list"
  folders :: "jsstring \<Rightarrow> drive_file list option"
  requests :: "(jsstring \<times> jsstring) list"

text \<open>
  What the outside answers during one invocation. \<open>elapsed env i\<close> is
  \<open>new Date() - SCRIPT_START_TIME\<close> in milliseconds as iteration \<open>i\<close> of the row loop reads
  it. \<open>getFileById\<close> is \<open>None\<close> where \<open>DriveApp.getFileById\<close> throws. \<open>ocr_text\<close> is the text
  of the converted document, \<open>None\<close> where the conversion throws. \<open>synth env k text\<close> answers
  the request number \<open>k\<close> of the invocation: the decoded PCM bytes and the id of the file
  that Drive creates, or \<open>None\<close> on every path on which \<open>generateAudioFromTextChunk\<close>
  returns \<open>null\<close>. Four functions of the language are taken as they are, without their
  tables: \<open>string_positive\<close> is the comparison \<open>s > 0\<close> for a text cell, \<open>toLowerCase\<close> is
  \<open>String.prototype.toLowerCase\<close> with the case mapping of Unicode, \<open>stringify\<close> is
  \<open>JSON.stringify(_, null, 2)\<close>, and \<open>json_ok\<close> says that \<open>JSON.parse\<close> does not throw.
\<close>

record env =
  sheet_found :: bool
  main_folder_found :: bool
  pdf_folder :: "drive_file list option"
  subfolder_fails :: "jsstring \<Rightarrow> bool"
  elapsed :: "nat \<Rightarrow> int"
  getFileById :: "jsstring \<Rightarrow> drive_file option"
  ocr_text :: "jsstring \<Rightarrow> jsstring option"
  synth :: "nat \<Rightarrow> jsstring \<Rightarrow> (byte list \<times> jsstring) option"
  string_positive :: "jsstring \<Rightarrow> bool"
  toLowerCase :: "jsstring \<Rightarrow> jsstring"
  stringify :: "entry list \<Rightarrow> jsstring"
  json_ok :: "jsstring \<Rightarrow> bool"

definition files_of :: "world \<Rightarrow> jsstring \<Rightarrow> drive_file list" where
  "files_of w name = (case folders w name of None \<Rightarrow> [] | Some fs \<Rightarrow> fs)"

text \<open>\<open>getOrCreateSubfolder\<close>: \<open>None\<close> is the \<open>null\<close> of the \<open>catch\<close>.\<close>

definition getOrCreateSubfolder :: "env \<Rightarrow> jsstring \<Rightarrow> world \<Rightarrow> world option" where
  "getOrCreateSubfolder env subfolderName w =
     (if subfolder_fails env subfolderName then None
      else (case folders w subfolderName of
              Some fs \<Rightarrow> Some w
            | None \<Rightarrow> Some (w\<lparr>folders := (folders w)(subfolderName \<mapsto> [])\<rparr>)))"

text \<open>\<open>folder.getFilesByName(name)\<close>; \<open>hasNext()\<close> is that the list is not empty and
  \<open>next()\<close> is its head.\<close>

definition getFilesByName :: "drive_file list \<Rightarrow> jsstring \<Rightarrow> drive_file list" where
  "getFilesByName folder name = filter (\<lambda>f. file_name f = name) folder"

text \<open>\<open>extractTextFromPdf\<close>: \<open>None\<close> is \<open>null\<close>.\<close>

definition extractTextFromPdf :: "env \<Rightarrow> jsstring \<Rightarrow> jsstring list option" where
  "extractTextFromPdf env fileId =
     (case getFileById env fileId of
        None \<Rightarrow> None
      | Some f \<Rightarrow>
          if \<not> is_pdf f then None
          else (case ocr_text env fileId of
                  None \<Rightarrow> None
                | Some text \<Rightarrow> Some (chunk_text text)))"

text \<open>\<open>generateAudioFromTextChunk\<close> (Gemini.js): one request; on success the WAV file is
  created in the folder under the given name.\<close>

definition generateAudioFromTextChunk ::
  "env \<Rightarrow> jsstring \<Rightarrow> jsstring \<Rightarrow> jsstring \<Rightarrow> world \<Rightarrow> drive_file option \<times> world" where
  "generateAudioFromTextChunk env text fileName folder w =
     (let k = length (requests w);
          w1 = w\<lparr>requests := requests w @ [(text, fileName)]\<rparr>
      in case synth env k text of
           None \<Rightarrow> (None, w1)
         | Some (decodedData, newId) \<Rightarrow>
             (let wavFile = \<lparr>file_id = newId, file_name = fileName, file_url = [],
                             is_pdf = False, file_bytes = createWavBlob decodedData\<rparr>
              in (Some wavFile,
                  w1\<lparr>folders := (folders w1)(folder \<mapsto> files_of w1 folder @ [wavFile])\<rparr>)))"


section \<open>Discovery stage (Code.js, step0_addNewPdfs)\<close>

definition new_row :: "jsstring \<Rightarrow> row" where
  "new_row fileUrl = blank_row\<lparr>PDF_URL := Str fileUrl\<rparr>"

text \<open>The \<open>while (files.hasNext())\<close> loop; \<open>existingUrls\<close> is computed once, before it.\<close>

fun add_files :: "cell set \<Rightarrow> drive_file list \<Rightarrow> row list \<Rightarrow> row list" where
  "add_files existingUrls [] rows = rows"
| "add_files existingUrls (f # fs) rows =
     (if Str (file_url f) \<notin> existingUrls
      then add_files existingUrls fs (rows @ [new_row (file_url f)])
      else add_files existingUrls fs rows)"

definition step0_addNewPdfs :: "env \<Rightarrow> world \<Rightarrow> world" where
  "step0_addNewPdfs env w =
     (if \<not> sheet_found env then w
      else if \<not> main_folder_found env then w
      else (case pdf_folder env of
              None \<Rightarrow> w
            | Some pdfFolder \<Rightarrow>
                (let data = getValues (sheet w);
                     existingUrls = set (map PDF_URL data);
                     files = filter is_pdf pdfFolder
                 in w\<lparr>sheet := add_files existingUrls files (sheet w)\<rparr>)))"


section \<open>Generation pass (Code.js, step2_GenerateMissingAudioAndFinalize)\<close>

definition SCRIPT_TIMEOUT_MS :: int where
  "SCRIPT_TIMEOUT_MS = 5 * 60 * 1000"

text \<open>\<open>totalChunks > 0\<close> on a cell.\<close>

fun greater_zero :: "env \<Rightarrow> cell \<Rightarrow> bool" where
  "greater_zero env (Num n) = (n > 0)"
| "greater_zero env (Bool b) = b"
| "greater_zero env (Str s) = string_positive env s"

text \<open>\<open>fileName.replace(/\.pdf$/i, '')\<close>.\<close>

definition strip_pdf :: "jsstring \<Rightarrow> jsstring" where
  "strip_pdf fileName =
     (if 4 \<le> length fileName \<and> ascii_lower (drop (length fileName - 4) fileName) = js ''.pdf''
      then take (length fileName - 4) fileName
      else fileName)"

text \<open>The three lookups of one chunk: \<open>existingFiles\<close> after the two \<open>if (!hasNext())\<close>.\<close>

definition existingFiles :: "drive_file list \<Rightarrow> jsstring \<Rightarrow> jsstring \<Rightarrow> jsstring \<Rightarrow> drive_file list" where
  "existingFiles folder newChunkName cleanLegacyName legacyFullName =
     (let found = getFilesByName folder newChunkName;
          found = (if found = [] then getFilesByName folder cleanLegacyName else found);
          found = (if found = [] then getFilesByName folder legacyFullName else found)
      in found)"

text \<open>The body of the loop over the chunks up to the assignment of \<open>audioFile\<close>.\<close>

definition audioFile_of ::
  "env \<Rightarrow> jsstring \<Rightarrow> jsstring \<Rightarrow> nat \<Rightarrow> jsstring \<Rightarrow> world \<Rightarrow> drive_file option \<times> world" where
  "audioFile_of env baseName fileName j chunkText w =
     (let newChunkName = generateSafeFilenameFromText chunkText j;
          cleanLegacyName = baseName @ chunk_suffix j;
          legacyFullName = fileName @ chunk_suffix j
      in case existingFiles (files_of w baseName) newChunkName cleanLegacyName legacyFullName of
           f # _ \<Rightarrow> (Some f, w)
         | [] \<Rightarrow> generateAudioFromTextChunk env chunkText newChunkName baseName w)"

text \<open>The loop \<open>for (let j = 0; j < totalChunks; j++)\<close>; it runs where
  \<open>textChunks.length\<close> is \<open>totalChunks\<close>, so it visits the chunks in their order. The result
  is \<open>allChunksProcessed\<close>, \<open>audioFileObjects\<close> and the world.\<close>

fun chunk_loop ::
  "env \<Rightarrow> jsstring \<Rightarrow> jsstring \<Rightarrow> nat \<Rightarrow> jsstring list \<Rightarrow> drive_file list \<Rightarrow> world
     \<Rightarrow> bool \<times> drive_file list \<times> world" where
  "chunk_loop env baseName fileName j [] audioFileObjects w = (True, audioFileObjects, w)"
| "chunk_loop env baseName fileName j (chunkText # rest) audioFileObjects w =
     (case audioFile_of env baseName fileName j chunkText w of
        (Some audioFile, w') \<Rightarrow>
          chunk_loop env baseName fileName (j + 1) rest (audioFileObjects @ [audioFile]) w'
      | (None, w') \<Rightarrow> (False, audioFileObjects, w'))"

definition audioDataForSheet :: "jsstring list \<Rightarrow> drive_file list \<Rightarrow> entry list" where
  "audioDataForSheet textChunks audioFileObjects =
     map (\<lambda>(chunkText, audioFile).
            \<lparr>entry_text = chunkText,
             audioUrl = js ''https://drive.google.com/uc?id='' @ file_id audioFile
                          @ js ''&export=media'',
             audioFilename = file_name audioFile\<rparr>)
         (zip textChunks audioFileObjects)"

text \<open>The two \<open>setValue\<close> calls on row \<open>i + 1\<close> of the sheet (1-based), which is a row of
  the sheet wherever the loop calls them.\<close>

definition finalize :: "env \<Rightarrow> nat \<Rightarrow> entry list \<Rightarrow> row list \<Rightarrow> row list" where
  "finalize env i manifest rows =
     (if i < length rows
      then rows[i := (rows ! i)\<lparr>AUDIO_JSON := Str (stringify env manifest), IS_COMPLETE := Bool True\<rparr>]
      else rows)"

text \<open>One iteration of the loop over the rows, after the check of the time. An exception
  that nothing catches (\<open>url.match\<close> on a cell that is not a string, \<open>DriveApp.getFileById\<close>)
  ends the invocation: \<open>Thrown\<close>.\<close>

datatype outcome = Finished | Thrown

definition process_row :: "env \<Rightarrow> nat \<Rightarrow> row \<Rightarrow> world \<Rightarrow> outcome \<times> world" where
  "process_row env i r w =
     (let isComplete = IS_COMPLETE r; pdfUrl = PDF_URL r; totalChunks = CHUNK_COUNT r
      in if truthy pdfUrl \<and> greater_zero env totalChunks \<and> \<not> truthy isComplete
         then (case pdfUrl of
                 Str url \<Rightarrow>
                   (case getFileIdFromUrl url of
                      None \<Rightarrow> (Finished, w)
                    | Some fileId \<Rightarrow>
                        (case getFileById env fileId of
                           None \<Rightarrow> (Thrown, w)
                         | Some f \<Rightarrow>
                             (let fileName = file_name f;
                                  baseName = trim (strip_pdf fileName)
                              in case getOrCreateSubfolder env baseName w of
                                   None \<Rightarrow> (Finished, w)
                                 | Some w1 \<Rightarrow>
                                     (case extractTextFromPdf env fileId of
                                        None \<Rightarrow> (Finished, w1)
                                      | Some textChunks \<Rightarrow>
                                          if Num (int (length textChunks)) \<noteq> totalChunks
                                          then (Finished, w1)
                                          else (case chunk_loop env baseName fileName 0 textChunks [] w1 of
                                                  (allChunksProcessed, audioFileObjects, w2) \<Rightarrow>
                                                    if allChunksProcessed
                                                       \<and> length audioFileObjects = length textChunks
                                                    then (Finished,
                                                          w2\<lparr>sheet := finalize env i
                                                                (audioDataForSheet textChunks audioFileObjects)
                                                                (sheet w2)\<rparr>)
                                                    else (Finished, w2))))))
               | _ \<Rightarrow> (Thrown, w))
         else (Finished, w))"

text \<open>The loop \<open>for (let i = 1; i < data.length; i++)\<close> over the rows that were read at the
  start, from iteration \<open>i\<close> on. The time is read once, at the start of an iteration.\<close>

fun for_rows :: "env \<Rightarrow> nat \<Rightarrow> row list \<Rightarrow> world \<Rightarrow> outcome \<times> world" where
  "for_rows env i [] w = (Finished, w)"
| "for_rows env i (r # rs) w =
     (if elapsed env i > SCRIPT_TIMEOUT_MS then (Finished, w)
      else (case process_row env i r w of
              (Thrown, w') \<Rightarrow> (Thrown, w')
            | (Finished, w') \<Rightarrow> for_rows env (i + 1) rs w'))"

definition step2_GenerateMissingAudioAndFinalize :: "env \<Rightarrow> world \<Rightarrow> outcome \<times> world" where
  "step2_GenerateMissingAudioAndFinalize env w =
     (if \<not> main_folder_found env then (Finished, w)
      else if \<not> sheet_found env then (Finished, w)
      else (let data = getValues (sheet w) in for_rows env 1 (drop 1 data) w))"


section \<open>Serving lookup (Code.js, getAssessmentPdf)\<close>

text \<open>
  The results of \<open>getAssessmentPdf\<close>, one constructor for each message:
  \<open>SheetNotFound\<close> for \<open>Backend Error: "Assessment Database" sheet not found.\<close>,
  \<open>NotReady\<close> for \<open>Audio for this assessment has not been generated yet. Please try again later.\<close>,
  \<open>InvalidUrl\<close> for \<open>Invalid Google Drive URL in sheet.\<close>,
  \<open>NotPdf\<close> for \<open>Error: The file is not a PDF.\<close>,
  \<open>NotFound\<close> for \<open>Assessment not found. Please check your email and password and try again.\<close>,
  \<open>ServerError\<close> for \<open>An unexpected server error occurred.\<close> (the \<open>catch\<close>).
  \<open>Served bytes name json\<close> is the answer with \<open>pdfData\<close> the Base64 text of \<open>bytes\<close>,
  \<open>fileName\<close> and \<open>audioChunks\<close> the value that \<open>JSON.parse\<close> reads from \<open>json\<close>.
\<close>

datatype response =
    SheetNotFound | NotReady | InvalidUrl | NotPdf | NotFound | ServerError
  | Served "byte list" jsstring jsstring

fun scan_rows :: "env \<Rightarrow> jsstring \<Rightarrow> jsstring \<Rightarrow> row list \<Rightarrow> response" where
  "scan_rows env email password [] = NotFound"
| "scan_rows env email password (r # rows) =
     (let pdfUrl = PDF_URL r;
          audioDataJson = AUDIO_JSON r;
          sheetPassword = trim (cell_toString (PASSWORD r));
          studentEmailsRaw = toLowerCase env (cell_toString (STUDENT_EMAILS r))
      in if \<not> truthy pdfUrl \<or> sheetPassword = [] \<or> studentEmailsRaw = []
         then scan_rows env email password rows
         else (let studentEmails = map trim (split_on comma studentEmailsRaw);
                   cleanEmail = trim (toLowerCase env email)
               in if cleanEmail \<in> set studentEmails \<and> password = sheetPassword
                  then (if \<not> truthy audioDataJson then NotReady
                        else (case pdfUrl of
                                Str url \<Rightarrow>
                                  (case getFileIdFromUrl url of
                                     None \<Rightarrow> InvalidUrl
                                   | Some fileId \<Rightarrow>
                                       (case getFileById env fileId of
                                          None \<Rightarrow> ServerError
                                        | Some f \<Rightarrow>
                                            if \<not> is_pdf f then NotPdf
                                            else if json_ok env (cell_toString audioDataJson)
                                            then Served (file_bytes f) (file_name f)
                                                   (cell_toString audioDataJson)
                                            else ServerError))
                              | _ \<Rightarrow> ServerError))
                  else scan_rows env email password rows))"

definition getAssessmentPdf :: "env \<Rightarrow> world \<Rightarrow> jsstring \<Rightarrow> jsstring \<Rightarrow> response" where
  "getAssessmentPdf env w email password =
     (if \<not> sheet_found env then SheetNotFound
      else (let data = getValues (sheet w) in scan_rows env email password (drop 1 data)))"

text \<open>For the statements about the lookup: the condition under which the scan stops at a
  row.\<close>

definition row_matches :: "env \<Rightarrow> jsstring \<Rightarrow> jsstring \<Rightarrow> row \<Rightarrow> bool" where
  "row_matches env email password r =
     (truthy (PDF_URL r)
      \<and> trim (cell_toString (PASSWORD r)) \<noteq> []
      \<and> toLowerCase env (cell_toString (STUDENT_EMAILS r)) \<noteq> []
      \<and> trim (toLowerCase env email)
           \<in> set (map trim (split_on comma
                  (toLowerCase env (cell_toString (STUDENT_EMAILS r)))))
      \<and> password = trim (cell_toString (PASSWORD r)))"


section \<open>Notions for the statements, and a small ledger\<close>

text \<open>The locators of the listed PDF files that no row of the ledger has, in the order of
  the listing: what the discovery stage is to add.\<close>

definition unseen_urls :: "env \<Rightarrow> world \<Rightarrow> jsstring list" where
  "unseen_urls env w =
     (if sheet_found env \<and> main_folder_found env
      then (case pdf_folder env of
              None \<Rightarrow> []
            | Some pdfFolder \<Rightarrow>
                filter (\<lambda>u. Str u \<notin> set (map PDF_URL (getValues (sheet w))))
                  (map file_url (filter is_pdf pdfFolder)))
      else [])"

text \<open>The case of a row with a count of 3 whose first two chunks \<open>ta\<close> and \<open>tb\<close> have a file
  in the folder under one of their names, whose third chunk \<open>tc\<close> has none, and whose
  request for the third chunk fails.\<close>

definition third_chunk_fails :: "env \<Rightarrow> world \<Rightarrow> row \<Rightarrow> jsstring \<Rightarrow> jsstring \<Rightarrow> jsstring \<Rightarrow> bool" where
  "third_chunk_fails env w r ta tb tc =
     (case PDF_URL r of
        Str url \<Rightarrow>
          (case getFileIdFromUrl url of
             None \<Rightarrow> False
           | Some fileId \<Rightarrow>
               (case getFileById env fileId of
                  None \<Rightarrow> False
                | Some f \<Rightarrow>
                    (let fileName = file_name f;
                         baseName = trim (strip_pdf fileName);
                         folder = files_of w baseName
                     in CHUNK_COUNT r = Num 3 \<and> \<not> truthy (IS_COMPLETE r)
                        \<and> \<not> subfolder_fails env baseName
                        \<and> extractTextFromPdf env fileId = Some [ta, tb, tc]
                        \<and> existingFiles folder (generateSafeFilenameFromText ta 0)
                              (baseName @ chunk_suffix 0) (fileName @ chunk_suffix 0) \<noteq> []
                        \<and> existingFiles folder (generateSafeFilenameFromText tb 1)
                              (baseName @ chunk_suffix 1) (fileName @ chunk_suffix 1) \<noteq> []
                        \<and> existingFiles folder (generateSafeFilenameFromText tc 2)
                              (baseName @ chunk_suffix 2) (fileName @ chunk_suffix 2) = []
                        \<and> synth env (length (requests w)) tc = None)))
      | _ \<Rightarrow> False)"

text \<open>A ledger with its header row and one row for \<open>Quiz.pdf\<close>, whose text has three
  items, and the answers of the outside: the source folder lists two PDF files, the text of
  \<open>Quiz.pdf\<close> is extracted, and every request to the speech service fails. Every string
  of this ledger and of the requests made to it is ASCII, where \<open>toLowerCase\<close> lowers the
  letters \<open>A\<close> to \<open>Z\<close> and nothing else.\<close>

definition header_row :: row where
  "header_row = \<lparr>PDF_URL = Str (js ''PDF URL''), CHUNK_COUNT = Str (js ''Chunk Count''),
      AUDIO_JSON = Str (js ''Audio JSON''), IS_COMPLETE = Str (js ''Complete''),
      CLASS_NAME = Str (js ''Class''), INSTRUCTOR = Str (js ''Instructor''),
      PASSWORD = Str (js ''Password''), STUDENT_EMAILS = Str (js ''Student Emails'')\<rparr>"

definition quiz_pdf :: drive_file where
  "quiz_pdf = \<lparr>file_id = js ''abc123'', file_name = js ''Quiz.pdf'',
      file_url = js ''https://drive.google.com/file/d/abc123/view'', is_pdf = True,
      file_bytes = [37, 80, 68, 70]\<rparr>"

definition test_pdf :: drive_file where
  "test_pdf = \<lparr>file_id = js ''def456'', file_name = js ''Test.pdf'',
      file_url = js ''https://drive.google.com/file/d/def456/view'', is_pdf = True,
      file_bytes = [37, 80, 68, 70]\<rparr>"

definition quiz_text :: jsstring where
  "quiz_text = js ''1. Apple'' @ newline # js ''2. Banana'' @ newline # js ''3. Cherry''"

definition example_env :: env where
  "example_env = \<lparr>sheet_found = True, main_folder_found = True,
      pdf_folder = Some [quiz_pdf, test_pdf],
      subfolder_fails = (\<lambda>name. False),
      elapsed = (\<lambda>i. 1000 * int i),
      getFileById = (\<lambda>fileId. if fileId = js ''abc123'' then Some quiz_pdf
                               else if fileId = js ''def456'' then Some test_pdf else None),
      ocr_text = (\<lambda>fileId. if fileId = js ''abc123'' then Some quiz_text else None),
      synth = (\<lambda>k text. None),
      string_positive = (\<lambda>s. False),
      toLowerCase = ascii_lower,
      stringify = (\<lambda>manifest. js ''[]''),
      json_ok = (\<lambda>json. True)\<rparr>"

definition quiz_row :: row where
  "quiz_row = \<lparr>PDF_URL = Str (file_url quiz_pdf), CHUNK_COUNT = Num 3, AUDIO_JSON = blank,
      IS_COMPLETE = Bool False, CLASS_NAME = Str (js ''Biology''), INSTRUCTOR = Str (js ''Lee''),
      PASSWORD = Str (js ''pw1''), STUDENT_EMAILS = Str (js ''a@x.com'')\<rparr>"

definition example_world :: world where
  "example_world = \<lparr>sheet = [header_row, quiz_row], folders = Map.empty, requests = []\<rparr>"

definition complete_row :: row where
  "complete_row = quiz_row\<lparr>AUDIO_JSON := Str (js ''[]''), IS_COMPLETE := Bool True\<rparr>"





definition semicolon_row :: row where
  "semicolon_row = complete_row\<lparr>STUDENT_EMAILS := Str (js ''a@x.com;b@x.com'')\<rparr>"

definition semicolon_world :: world where
  "semicolon_world = \<lparr>sheet = [header_row, semicolon_row], folders = Map.empty, requests = []\<rparr>"

text \<open>A folder for \<open>Quiz.pdf\<close> that has the audio of the first chunk under the canonical
  name and the audio of the second under both older names, and none for the third; a
  second row, for \<open>Test.pdf\<close>; and a clock that has passed the ceiling at the second row.\<close>

definition apple_wav :: drive_file where
  "apple_wav = \<lparr>file_id = js ''wav1'', file_name = js ''1-Apple-chunk-1.wav'', file_url = [],
      is_pdf = False, file_bytes = createWavBlob [0, 0]\<rparr>"

definition banana_wav :: drive_file where
  "banana_wav = \<lparr>file_id = js ''wav2'', file_name = js ''Quiz-chunk-2.wav'', file_url = [],
      is_pdf = False, file_bytes = createWavBlob [0, 0]\<rparr>"

definition banana_old_wav :: drive_file where
  "banana_old_wav = \<lparr>file_id = js ''wav3'', file_name = js ''Quiz.pdf-chunk-2.wav'', file_url = [],
      is_pdf = False, file_bytes = createWavBlob [0, 0]\<rparr>"

definition quiz_folder :: "drive_file list" where
  "quiz_folder = [banana_old_wav, banana_wav, apple_wav]"

definition partial_world :: world where
  "partial_world = \<lparr>sheet = [header_row, quiz_row],
      folders = [js ''Quiz'' \<mapsto> quiz_folder], requests = []\<rparr>"

definition test_row :: row where
  "test_row = \<lparr>PDF_URL = Str (file_url test_pdf), CHUNK_COUNT = Num 1, AUDIO_JSON = blank,
      IS_COMPLETE = Bool False, CLASS_NAME = Str (js ''Biology''), INSTRUCTOR = Str (js ''Lee''),
      PASSWORD = Str (js ''pw2''), STUDENT_EMAILS = Str (js ''b@x.com'')\<rparr>"

definition two_row_world :: world where
  "two_row_world = \<lparr>sheet = [header_row, quiz_row, test_row],
      folders = [js ''Quiz'' \<mapsto> quiz_folder], requests = []\<rparr>"

definition late_env :: env where
  "late_env = example_env\<lparr>elapsed := (\<lambda>i. if i < 2 then 1000 else 301000)\<rparr>"


section \<open>Properties of the naming scheme\<close>

lemma dec_digits: "\<forall>c \<in> set (dec n). is_digit c"
proof (induction n rule: dec.induct)
  case (1 n)
  show ?case
  proof (cases "n < 10")
    case True
    then have "unat (of_nat (48 + n) :: uchar) = 48 + n"
      using unat_of_nat [where 'a = 16, of "48 + n"] by simp
    with True show ?thesis by (simp add: dec.simps [of n] is_digit_def)
  next
    case False
    have "n mod 10 < 10" by simp
    then have "unat (of_nat (48 + n mod 10) :: uchar) = 48 + n mod 10"
      using unat_of_nat [where 'a = 16, of "48 + n mod 10"] by simp
    with False 1 show ?thesis by (simp add: dec.simps [of n] is_digit_def)
  qed
qed

lemma dec_small: "n < 10 \<Longrightarrow> dec n = [of_nat (48 + n)]"
  by (simp add: dec.simps [of n])

lemma dec_large: "\<not> n < 10 \<Longrightarrow> dec n = dec (n div 10) @ [of_nat (48 + n mod 10)]"
  by (simp add: dec.simps [of n])


lemma set_hyphenate: "set (hyphenate xs) \<subseteq> insert hyphen {c \<in> set xs. \<not> is_space c}"
proof (induction xs rule: hyphenate.induct)
  case 1
  show ?case by simp
next
  case (2 c cs)
  show ?case
  proof (cases "is_space c")
    case True
    with 2 have "set (hyphenate (dropWhile is_space cs)) \<subseteq> insert hyphen {c \<in> set (dropWhile is_space cs). \<not> is_space c}"
      by simp
    moreover have "set (dropWhile is_space cs) \<subseteq> set cs" by (auto dest: set_dropWhileD)
    ultimately show ?thesis using True by auto
  next
    case False
    with 2 show ?thesis by auto
  qed
qed

lemma sanitized_chars: "c \<in> set (sanitized text) \<Longrightarrow> is_name_char c"
  using set_hyphenate [of "filter (\<lambda>c. is_word c \<or> is_space c \<or> c = hyphen) (firstWords text)"]
  by (auto simp: sanitized_def is_name_char_def)

lemma chunk_suffix_chars: "c \<in> set (chunk_suffix n) \<Longrightarrow> is_name_char c \<or> c = dot"
  using dec_digits [of "n + 1"]
  by (auto simp: chunk_suffix_def js_def is_name_char_def is_word_def hyphen_def dot_def)

lemma no_space_split_ws: "\<forall>c \<in> set w. \<not> is_space c \<Longrightarrow> split_ws w = (if w = [] then [[]] else [w])"
  by (induction w) (auto split: list.splits)

lemma no_space_hyphenate: "\<forall>c \<in> set w. \<not> is_space c \<Longrightarrow> hyphenate w = w"
  by (induction w) auto


lemma generateSafeFilenameFromText_fits:
  assumes "length (sanitized text) + length (chunk_suffix n) \<le> 250"
  shows "generateSafeFilenameFromText text n = sanitized text @ js ''-chunk-'' @ dec (n + 1) @ js ''.wav''"
  using assms by (simp add: generateSafeFilenameFromText_def chunk_suffix_def)

lemma generateSafeFilenameFromText_bounds:
  "length (generateSafeFilenameFromText text n) \<le> 250
   \<and> (\<forall>c \<in> set (generateSafeFilenameFromText text n). is_name_char c \<or> c = dot)
   \<and> (\<forall>c \<in> set (sanitized text). is_name_char c)"
proof -
  have len: "length (generateSafeFilenameFromText text n) \<le> 250"
    by (simp add: generateSafeFilenameFromText_def)
  have chars: "\<forall>c \<in> set (generateSafeFilenameFromText text n). is_name_char c \<or> c = dot"
  proof
    fix c assume "c \<in> set (generateSafeFilenameFromText text n)"
    then have "c \<in> set (sanitized text @ chunk_suffix n)"
      unfolding generateSafeFilenameFromText_def Let_def by (rule in_set_takeD)
    then show "is_name_char c \<or> c = dot"
      using sanitized_chars chunk_suffix_chars by auto
  qed
  show ?thesis
    using len chars sanitized_chars by blast
qed

lemma sanitized_Apple: "sanitized (js ''1. Apple'') = js ''1-Apple''"
  by (simp add: sanitized_def firstWords_def js_def is_space_def is_word_def is_digit_def
      hyphen_def space_def)

lemma chunk_suffix_0: "chunk_suffix 0 = js ''-chunk-1.wav''"
  by (simp add: chunk_suffix_def dec_small js_def)

lemma sanitized_word:
  assumes "\<forall>c \<in> set w. is_word c \<and> \<not> is_space c"
  shows "sanitized w = w"
proof -
  have ns: "\<forall>c \<in> set w. \<not> is_space c" using assms by simp
  have "firstWords w = w"
    using no_space_split_ws [OF ns] by (simp add: firstWords_def)
  moreover have "filter (\<lambda>c. is_word c \<or> is_space c \<or> c = hyphen) w = w"
    using assms by (simp add: filter_id_conv)
  ultimately show ?thesis
    using no_space_hyphenate [OF ns] by (simp add: sanitized_def)
qed

lemma generateSafeFilenameFromText_long:
  "250 \<le> length (sanitized text) \<Longrightarrow>
   generateSafeFilenameFromText text n = take 250 (sanitized text)"
  by (simp add: generateSafeFilenameFromText_def)

lemma letter_a: "is_word (97 :: uchar) \<and> \<not> is_space (97 :: uchar)"
  "is_word (98 :: uchar) \<and> \<not> is_space (98 :: uchar)"
  by (simp_all add: is_word_def is_space_def)

text \<open>
  Claim C1 against the code. The comment of the function says that the ordinal is added
  for uniqueness, together with the extension, and its header promises a unique file name;
  the claim asks for a name that ends with \<open>-chunk-<N+1>.wav\<close>. The code cuts the whole
  name with \<open>substring(0, 250)\<close>, suffix included. For a chunk that is one word of 250
  letters \<open>a\<close> the name is the 250 letters: it does not end with \<open>-chunk-1.wav\<close>, the
  ordinal 1 gives the same name as the ordinal 0, and so does the ordinal 1 of another
  chunk, of 250 letters \<open>a\<close> and one \<open>b\<close>. For a chunk that is one word of 239 letters the
  name ends with \<open>-chunk-1.wa\<close>: the extension is cut.
\<close>

theorem generateSafeFilenameFromText_truncation:
  "generateSafeFilenameFromText (replicate 250 97) 0 = replicate 250 97
   \<and> \<not> suffix (js ''-chunk-1.wav'') (generateSafeFilenameFromText (replicate 250 97) 0)
   \<and> generateSafeFilenameFromText (replicate 250 97) 1
       = generateSafeFilenameFromText (replicate 250 97) 0
   \<and> replicate 250 97 @ [98] \<noteq> replicate 250 97
   \<and> generateSafeFilenameFromText (replicate 250 97 @ [98]) 1
       = generateSafeFilenameFromText (replicate 250 97) 0
   \<and> generateSafeFilenameFromText (replicate 239 97) 0 = replicate 239 97 @ js ''-chunk-1.wa''
   \<and> \<not> suffix (js ''.wav'') (generateSafeFilenameFromText (replicate 239 97) 0)"
proof -
  have s250: "sanitized (replicate 250 97) = replicate 250 97"
    by (rule sanitized_word) (simp add: letter_a)
  have s251: "sanitized (replicate 250 97 @ [98]) = replicate 250 97 @ [98]"
    by (rule sanitized_word) (auto simp: letter_a)
  have s239: "sanitized (replicate 239 97) = replicate 239 97"
    by (rule sanitized_word) (simp add: letter_a)
  have a: "generateSafeFilenameFromText (replicate 250 97) n = replicate 250 97" for n
    by (simp add: generateSafeFilenameFromText_long s250)
  have b: "generateSafeFilenameFromText (replicate 250 97 @ [98]) n = replicate 250 97" for n
    by (simp add: generateSafeFilenameFromText_long s251)
  have c: "generateSafeFilenameFromText (replicate 239 97) 0 = replicate 239 97 @ js ''-chunk-1.wa''"
    by (simp add: generateSafeFilenameFromText_def s239 chunk_suffix_0) (simp add: js_def)
  have d: "\<not> suffix (js ''-chunk-1.wav'') (replicate 250 (97 :: uchar))"
  proof
    assume "suffix (js ''-chunk-1.wav'') (replicate 250 (97 :: uchar))"
    then have "set (js ''-chunk-1.wav'') \<subseteq> set (replicate 250 (97 :: uchar))"
      by (rule set_mono_suffix)
    then show False by (simp add: js_def)
  qed
  have e: "\<not> suffix (js ''.wav'') (replicate 239 (97 :: uchar) @ js ''-chunk-1.wa'')"
  proof
    assume "suffix (js ''.wav'') (replicate 239 (97 :: uchar) @ js ''-chunk-1.wa'')"
    then have "suffix (js ''.wav'') ((replicate 239 (97 :: uchar) @ js ''-chunk-1.'') @ js ''wa'')"
      by (simp add: js_def)
    then have "suffix (js ''.wav'') ((replicate 239 (97 :: uchar) @ js ''-chunk-1.'') @ [119, 97])"
      by (simp add: js_def)
    then show False
      by (simp add: js_def suffix_def append_eq_append_conv2 append_eq_Cons_conv Cons_eq_append_conv)
  qed
  from a [of 0] a [of 1] b [of 1] c d e show ?thesis by simp
qed


section \<open>Properties of the container encoder\<close>


lemma list_update_Cons_numeral:
  "(x # xs)[numeral v := y] = x # xs[numeral v - 1 := y]"
  by (cases "numeral v :: nat") simp_all

lemma unat_byte_of: "unat (byte_of v k) = (v div 256 ^ k) mod 256"
  by (simp add: byte_of_def unat_of_nat)

lemma mod_256_sq: "(v::nat) mod 65536 = v mod 256 + 256 * (v div 256 mod 256)"
  using mod_mult2_eq [of v 256 256] by simp

lemma mod_256_cube: "(v::nat) mod 16777216 = v mod 65536 + 65536 * (v div 65536 mod 256)"
  using mod_mult2_eq [of v 65536 256] by simp

lemma mod_256_four: "(v::nat) mod 4294967296 = v mod 16777216 + 16777216 * (v div 16777216 mod 256)"
  using mod_mult2_eq [of v 16777216 256] by simp

lemma le16_bytes: "unat (byte_of v 0) + 256 * unat (byte_of v 1) = v mod 65536"
  by (simp add: unat_byte_of mod_256_sq)

lemma le32_bytes:
  "unat (byte_of v 0) + 256 * unat (byte_of v 1) + 65536 * unat (byte_of v 2)
     + 16777216 * unat (byte_of v 3) = v mod 4294967296"
  by (simp add: unat_byte_of mod_256_four mod_256_cube mod_256_sq)

lemma zero_buffer: "replicate 44 (0::byte) = [0,0,0,0,0,0,0,0,0,0,0,0,0,0,0,0,0,0,0,0,0,0,0,0,0,0,0,0,0,0,0,0,0,0,0,0,0,0,0,0,0,0,0,0]"
  by (simp add: eval_nat_numeral)

lemma byte_of_numeral: "byte_of (numeral v) k = of_nat ((numeral v div 256 ^ k) mod 256)"
  by (simp add: byte_of_def)

lemma byte_of_1: "byte_of (Suc 0) k = of_nat ((Suc 0 div 256 ^ k) mod 256)"
  by (simp add: byte_of_def)

lemma wav_header_bytes:
  "wav_header n =
     [0x52, 0x49, 0x46, 0x46,
      byte_of (36 + n) 0, byte_of (36 + n) 1, byte_of (36 + n) 2, byte_of (36 + n) 3,
      0x57, 0x41, 0x56, 0x45,
      0x66, 0x6D, 0x74, 0x20,
      16, 0, 0, 0,
      1, 0,
      1, 0,
      0xC0, 0x5D, 0, 0,
      0x80, 0xBB, 0, 0,
      2, 0,
      16, 0,
      0x64, 0x61, 0x74, 0x61,
      byte_of n 0, byte_of n 1, byte_of n 2, byte_of n 3]"
  unfolding wav_header_def Let_def zero_buffer
  by (simp add: setUint32_def setUint16_def setUint8_def js_def list_update_Cons_numeral
      sampleRate_def numChannels_def bitsPerSample_def byteRate_def blockAlign_def
      byte_of_numeral byte_of_1)


text \<open>
  Claim C3. For every PCM input of M bytes \<open>createWavBlob\<close> gives exactly 44 + M bytes:
  the tag \<open>RIFF\<close>, the tags \<open>WAVE\<close> and \<open>fmt\<close> with the size 16 of the format part, audio
  format 1, 1 channel, 24000 Hz, byte rate 48000, block align 2, 16 bits per sample, the
  tag \<open>data\<close>, and after the 44 bytes of the header the PCM bytes unchanged. The two size
  fields have 32 bits: the first reads back as 36 + M (the total size minus 8) and the
  second as M wherever 36 + M is below \<open>2^32\<close>, which holds for every input whose
  container is an array that the language can build (fewer than \<open>2^32\<close> elements).
\<close>

theorem createWavBlob_layout:
  "length (createWavBlob pcmData) = 44 + length pcmData
   \<and> take 4 (createWavBlob pcmData) = tag ''RIFF''
   \<and> take 4 (drop 8 (createWavBlob pcmData)) = tag ''WAVE''
   \<and> take 4 (drop 12 (createWavBlob pcmData)) = tag ''fmt ''
   \<and> getUint32 (createWavBlob pcmData) 16 = 16
   \<and> getUint16 (createWavBlob pcmData) 20 = 1
   \<and> getUint16 (createWavBlob pcmData) 22 = 1
   \<and> getUint32 (createWavBlob pcmData) 24 = 24000
   \<and> getUint32 (createWavBlob pcmData) 28 = 48000
   \<and> getUint16 (createWavBlob pcmData) 32 = 2
   \<and> getUint16 (createWavBlob pcmData) 34 = 16
   \<and> take 4 (drop 36 (createWavBlob pcmData)) = tag ''data''
   \<and> drop 44 (createWavBlob pcmData) = pcmData
   \<and> (36 + length pcmData < 2 ^ 32 \<longrightarrow>
        getUint32 (createWavBlob pcmData) 4 = 36 + length pcmData
        \<and> getUint32 (createWavBlob pcmData) 4 = length (createWavBlob pcmData) - 8
        \<and> getUint32 (createWavBlob pcmData) 40 = length pcmData)"
proof -
  let ?M = "length pcmData"
  have len: "length (createWavBlob pcmData) = 44 + ?M"
    by (simp add: createWavBlob_def wav_header_bytes)
  have sizes: "getUint32 (createWavBlob pcmData) 4 = 36 + ?M
        \<and> getUint32 (createWavBlob pcmData) 4 = length (createWavBlob pcmData) - 8
        \<and> getUint32 (createWavBlob pcmData) 40 = ?M" if fits: "36 + ?M < 2 ^ 32"
  proof -
    have s36: "(36 + ?M) mod 4294967296 = 36 + ?M" and sM: "?M mod 4294967296 = ?M"
      using fits by simp_all
    have riff: "getUint32 (createWavBlob pcmData) 4 = 36 + ?M"
      using le32_bytes [of "36 + ?M"] s36
      by (simp add: createWavBlob_def wav_header_bytes getUint32_def)
    have data: "getUint32 (createWavBlob pcmData) 40 = ?M"
      using le32_bytes [of "?M"] sM
      by (simp add: createWavBlob_def wav_header_bytes getUint32_def)
    from riff data len show ?thesis by simp
  qed
  have fixed: "getUint16 (createWavBlob pcmData) 20 = 1"
    "getUint16 (createWavBlob pcmData) 22 = 1"
    "getUint32 (createWavBlob pcmData) 24 = 24000"
    "getUint32 (createWavBlob pcmData) 28 = 48000"
    "getUint16 (createWavBlob pcmData) 32 = 2"
    "getUint16 (createWavBlob pcmData) 34 = 16"
    by (simp_all add: createWavBlob_def wav_header_bytes getUint32_def getUint16_def)
  have tags: "take 4 (createWavBlob pcmData) = tag ''RIFF''"
    "take 4 (drop 8 (createWavBlob pcmData)) = tag ''WAVE''"
    "take 4 (drop 12 (createWavBlob pcmData)) = tag ''fmt ''"
    "take 4 (drop 36 (createWavBlob pcmData)) = tag ''data''"
    "getUint32 (createWavBlob pcmData) 16 = 16"
    by (simp_all add: createWavBlob_def wav_header_bytes tag_def getUint32_def)
  have rest: "drop 44 (createWavBlob pcmData) = pcmData"
    by (simp add: createWavBlob_def wav_header_bytes)
  from len sizes fixed tags rest show ?thesis by simp
qed

text \<open>Claim C3 at three bytes of PCM data, with the whole container written out.\<close>

theorem createWavBlob_layout_witness:
  "36 + length [1, 2, 3 :: byte] < (2::nat) ^ 32
   \<and> createWavBlob [1, 2, 3] =
     [0x52, 0x49, 0x46, 0x46, 39, 0, 0, 0, 0x57, 0x41, 0x56, 0x45, 0x66, 0x6D, 0x74, 0x20,
      16, 0, 0, 0, 1, 0, 1, 0, 0xC0, 0x5D, 0, 0, 0x80, 0xBB, 0, 0, 2, 0, 16, 0,
      0x64, 0x61, 0x74, 0x61, 3, 0, 0, 0, 1, 2, 3]
   \<and> length (createWavBlob [1, 2, 3 :: byte]) = 47
   \<and> getUint32 (createWavBlob [1, 2, 3]) 4 = 39
   \<and> getUint32 (createWavBlob [1, 2, 3]) 40 = 3"
proof -
  have h: "36 + length [1, 2, 3 :: byte] < (2::nat) ^ 32" by simp
  have b: "createWavBlob [1, 2, 3] =
     [0x52, 0x49, 0x46, 0x46, 39, 0, 0, 0, 0x57, 0x41, 0x56, 0x45, 0x66, 0x6D, 0x74, 0x20,
      16, 0, 0, 0, 1, 0, 1, 0, 0xC0, 0x5D, 0, 0, 0x80, 0xBB, 0, 0, 2, 0, 16, 0,
      0x64, 0x61, 0x74, 0x61, 3, 0, 0, 0, 1, 2, 3]"
    by (simp add: createWavBlob_def wav_header_bytes byte_of_def)
  from createWavBlob_layout [of "[1, 2, 3]"] h
  have "length (createWavBlob [1, 2, 3 :: byte]) = 47"
    and "getUint32 (createWavBlob [1, 2, 3]) 4 = 39"
    and "getUint32 (createWavBlob [1, 2, 3]) 40 = 3"
    by simp_all
  with h b show ?thesis by simp
qed


section \<open>Properties of the chunker\<close>



lemma digit_not_space: "is_digit c \<Longrightarrow> \<not> is_space c"
  by (auto simp: is_digit_def is_space_def)

lemma dot_not_digit: "\<not> is_digit dot"
  by (simp add: is_digit_def dot_def)

lemma item_start_intro:
  assumes ws: "\<forall>c \<in> set ws. is_space c" and ds: "ds \<noteq> []" "\<forall>c \<in> set ds. is_digit c"
    and q: "is_space q"
  shows "item_start (ws @ ds @ dot # q # r)"
proof -
  from ds obtain d ds' where d: "ds = d # ds'" by (cases ds) auto
  with ds have "\<not> is_space d" by (simp add: digit_not_space)
  with ws d have 1: "dropWhile is_space (ws @ ds @ dot # q # r) = ds @ dot # q # r"
    by (simp add: dropWhile_append)
  from ds have 2: "takeWhile is_digit (ds @ dot # q # r) = ds"
    by (simp add: takeWhile_append2 dot_not_digit takeWhile_tail)
  from ds have 3: "dropWhile is_digit (ds @ dot # q # r) = dot # q # r"
    by (simp add: dropWhile_append dot_not_digit)
  show ?thesis
    using ds q by (simp add: item_start_def 1 2 3)
qed

lemma item_start_elim:
  assumes "item_start s"
  shows "\<exists>ws ds q r. s = ws @ ds @ dot # q # r \<and> (\<forall>c \<in> set ws. is_space c) \<and> ds \<noteq> []
           \<and> (\<forall>c \<in> set ds. is_digit c) \<and> is_space q"
proof -
  let ?ws = "takeWhile is_space s" and ?r = "dropWhile is_space s"
  let ?ds = "takeWhile is_digit ?r" and ?t = "dropWhile is_digit ?r"
  from assms have ne: "?ds \<noteq> []"
    and t: "(case ?t of p # q # _ \<Rightarrow> p = dot \<and> is_space q | _ \<Rightarrow> False)"
    by (simp_all add: item_start_def Let_def)
  from t obtain q r where tq: "?t = dot # q # r" and q: "is_space q"
    by (auto split: list.splits)
  have "s = ?ws @ ?r" by simp
  also have "?r = ?ds @ ?t" by simp
  finally have "s = ?ws @ ?ds @ dot # q # r" using tq by simp
  moreover have "\<forall>c \<in> set ?ws. is_space c" by (auto dest: set_takeWhileD)
  moreover have "\<forall>c \<in> set ?ds. is_digit c" by (auto dest: set_takeWhileD)
  ultimately show ?thesis using ne q by blast
qed

lemma split_items_not_Nil: "split_items t \<noteq> []"
  by (induction t) (auto split: list.splits)

lemma split_items_first:
  "boundary_free p (newline # s) \<Longrightarrow> item_start s \<Longrightarrow>
   split_items (p @ newline # s) = p # split_items s"
  by (induction p) auto

lemma split_items_whole: "boundary_free t [] \<Longrightarrow> split_items t = [t]"
  by (induction t) auto

lemma trim_ends:
  assumes "trim s \<noteq> []"
  shows "\<not> is_space (hd (trim s)) \<and> \<not> is_space (last (trim s))"
proof -
  let ?d = "dropWhile is_space s"
  let ?e = "dropWhile is_space (rev ?d)"
  from assms have e: "?e \<noteq> []" by (simp add: trim_def)
  then have d: "?d \<noteq> []" by (auto dest: set_dropWhileD)
  have "last (trim s) = hd ?e" using e by (simp add: trim_def last_rev)
  moreover have "\<not> is_space (hd ?e)" using e by (rule hd_dropWhile)
  moreover have "hd (trim s) = last ?e" using e by (simp add: trim_def hd_rev)
  moreover have "last ?e = last (rev ?d)"
    using e by (metis append_Nil2 last_appendR takeWhile_dropWhile_id)
  moreover have "last (rev ?d) = hd ?d" using d by (simp add: last_rev)
  moreover have "\<not> is_space (hd ?d)" using d by (rule hd_dropWhile)
  ultimately show ?thesis by simp
qed

lemma chunk_text_first:
  assumes "boundary_free p (newline # s)" "item_start s"
  shows "chunk_text (p @ newline # s) = (if trim p = [] then [] else [trim p]) @ chunk_text s"
  using split_items_first [OF assms] by (simp add: chunk_text_def)

lemma chunk_text_whole:
  assumes "boundary_free t []"
  shows "chunk_text t = (if trim t = [] then [] else [trim t])"
  using split_items_whole [OF assms] by (simp add: chunk_text_def)

lemma chunk_text_ends:
  assumes "c \<in> set (chunk_text t)"
  shows "c \<noteq> [] \<and> \<not> is_space (hd c) \<and> \<not> is_space (last c)"
proof -
  from assms obtain s where "c = trim s" "trim s \<noteq> []"
    by (auto simp: chunk_text_def)
  then show ?thesis using trim_ends by simp
qed

lemma chunk_text_Apple:
  "chunk_text (js ''1. Apple'' @ newline # js ''2. Banana'') = [js ''1. Apple'', js ''2. Banana'']"
  by (simp add: chunk_text_def js_def newline_def item_start_def is_space_def is_digit_def
      dot_def trim_def)

lemma chunk_text_2B:
  "chunk_text (js ''1. A'' @ newline # js ''2.B'') = [js ''1. A'' @ newline # js ''2.B'']"
  by (simp add: chunk_text_def js_def newline_def item_start_def is_space_def is_digit_def
      dot_def trim_def)

text \<open>
  Claim C5, as amended. A boundary is a line feed that is followed by optional whitespace,
  one or more decimal digits, a period and then one whitespace character. The text up to
  the first boundary is the first piece and the text after it is split in the same way; a
  text with no boundary is one piece. Each piece is trimmed and the empty ones are dropped,
  so every chunk is non-empty and neither starts nor ends with whitespace. The text
  \<open>1. Apple\<close>, line feed, \<open>2. Banana\<close> gives the two chunks \<open>1. Apple\<close> and \<open>2. Banana\<close>.
  (The chunker is a function of the text, so the same text gives the same chunks.)
\<close>

theorem chunk_text_boundaries:
  "(item_start s \<longleftrightarrow>
      (\<exists>ws ds q r. s = ws @ ds @ dot # q # r \<and> (\<forall>c \<in> set ws. is_space c) \<and> ds \<noteq> []
         \<and> (\<forall>c \<in> set ds. is_digit c) \<and> is_space q))
   \<and> (boundary_free p (newline # s) \<and> item_start s \<longrightarrow>
        chunk_text (p @ newline # s) = (if trim p = [] then [] else [trim p]) @ chunk_text s)
   \<and> (boundary_free t [] \<longrightarrow> chunk_text t = (if trim t = [] then [] else [trim t]))
   \<and> (\<forall>c \<in> set (chunk_text t). c \<noteq> [] \<and> \<not> is_space (hd c) \<and> \<not> is_space (last c))
   \<and> chunk_text (js ''1. Apple'' @ newline # js ''2. Banana'') = [js ''1. Apple'', js ''2. Banana'']"
proof -
  have "item_start s \<longleftrightarrow>
      (\<exists>ws ds q r. s = ws @ ds @ dot # q # r \<and> (\<forall>c \<in> set ws. is_space c) \<and> ds \<noteq> []
         \<and> (\<forall>c \<in> set ds. is_digit c) \<and> is_space q)"
    using item_start_elim item_start_intro by blast
  then show ?thesis
    using chunk_text_first chunk_text_whole chunk_text_ends chunk_text_Apple by blast
qed

text \<open>The amended claim C5 used on the text of the claim: \<open>1. Apple\<close> has no boundary
  before the line feed, \<open>2. Banana\<close> starts an item and has no boundary.\<close>

theorem chunk_text_boundaries_witness:
  "boundary_free (js ''1. Apple'') (newline # js ''2. Banana'')
   \<and> item_start (js ''2. Banana'')
   \<and> boundary_free (js ''2. Banana'') []
   \<and> chunk_text (js ''1. Apple'' @ newline # js ''2. Banana'')
       = [trim (js ''1. Apple'')] @ [trim (js ''2. Banana'')]
   \<and> trim (js ''1. Apple'') = js ''1. Apple''"
proof -
  have a: "boundary_free (js ''1. Apple'') (newline # js ''2. Banana'')"
    by (simp add: js_def newline_def)
  have b: "item_start (js ''2. Banana'')"
    by (simp add: js_def item_start_def is_space_def is_digit_def dot_def)
  have c: "boundary_free (js ''2. Banana'') []"
    by (simp add: js_def newline_def)
  have d: "trim (js ''1. Apple'') = js ''1. Apple''" "trim (js ''2. Banana'') = js ''2. Banana''"
    by (simp_all add: js_def trim_def is_space_def)
  have e: "js ''1. Apple'' \<noteq> []" "js ''2. Banana'' \<noteq> []"
    by (simp_all add: js_def)
  from chunk_text_boundaries [of "js ''2. Banana''" "js ''1. Apple''" "js ''2. Banana''"] a b c
  have "chunk_text (js ''1. Apple'' @ newline # js ''2. Banana'')
          = (if trim (js ''1. Apple'') = [] then [] else [trim (js ''1. Apple'')]) @ chunk_text (js ''2. Banana'')"
    and "chunk_text (js ''2. Banana'')
          = (if trim (js ''2. Banana'') = [] then [] else [trim (js ''2. Banana'')])"
    by blast+
  then have "chunk_text (js ''1. Apple'' @ newline # js ''2. Banana'')
       = [trim (js ''1. Apple'')] @ [trim (js ''2. Banana'')]"
    using d e by simp
  with a b c d show ?thesis by simp
qed

text \<open>
  Claim C5 as it is written fails: in the text \<open>1. A\<close>, line feed, \<open>2.B\<close> the second line
  begins with an integer followed by a period, and the chunker does not split there,
  because no whitespace follows the period.
\<close>

theorem chunk_text_counterexample:
  "chunk_text (js ''1. A'' @ newline # js ''2.B'') = [js ''1. A'' @ newline # js ''2.B'']
   \<and> chunk_text (js ''1. A'' @ newline # js ''2.B'') \<noteq> [js ''1. A'', js ''2.B'']"
proof -
  have "chunk_text (js ''1. A'' @ newline # js ''2.B'') = [js ''1. A'' @ newline # js ''2.B'']"
    by (rule chunk_text_2B)
  then show ?thesis by (simp add: js_def)
qed


section \<open>Properties of the discovery stage\<close>

lemma add_files_eq:
  "add_files E fs rows
     = rows @ map new_row (filter (\<lambda>u. Str u \<notin> E) (map file_url fs))"
  by (induction fs arbitrary: rows) auto

lemma step0_sheet: "sheet (step0_addNewPdfs env w) = sheet w @ map new_row (unseen_urls env w)"
  by (auto simp: step0_addNewPdfs_def unseen_urls_def add_files_eq Let_def split: option.splits)

lemma step0_rest:
  "folders (step0_addNewPdfs env w) = folders w \<and> requests (step0_addNewPdfs env w) = requests w"
  by (auto simp: step0_addNewPdfs_def Let_def split: option.splits)

lemma PDF_URL_new_row: "PDF_URL (new_row u) = Str u"
  by (simp add: new_row_def blank_row_def)

lemma unseen_after_step0:
  assumes urls: "\<And>pdfFolder f. pdf_folder env = Some pdfFolder \<Longrightarrow> f \<in> set pdfFolder \<Longrightarrow> file_url f \<noteq> []"
  shows "unseen_urls env (step0_addNewPdfs env w) = []"
proof (cases "sheet_found env \<and> main_folder_found env")
  case False
  then show ?thesis by (auto simp: unseen_urls_def)
next
  case True
  show ?thesis
  proof (cases "pdf_folder env")
    case None
    with True show ?thesis by (simp add: unseen_urls_def)
  next
    case (Some pdfFolder)
    let ?s1 = "sheet (step0_addNewPdfs env w)"
    have s1: "?s1 = sheet w @ map new_row (unseen_urls env w)" by (rule step0_sheet)
    have "Str (file_url f) \<in> set (map PDF_URL (getValues ?s1))"
      if f: "f \<in> set pdfFolder" and pdf: "is_pdf f" for f
    proof (cases "Str (file_url f) \<in> set (map PDF_URL (getValues (sheet w)))")
      case old: True
      have "sheet w \<noteq> []"
      proof
        assume "sheet w = []"
        with old have "file_url f = []"
          by (simp add: getValues_def blank_row_def blank_def)
        with urls [OF Some f] show False by simp
      qed
      with old show ?thesis by (auto simp: s1 getValues_def)
    next
      case new: False
      have mem: "file_url f \<in> set (unseen_urls env w)"
        using pdf new True Some f by (auto simp: unseen_urls_def)
      then have ne: "?s1 \<noteq> []"
        by (auto simp: s1)
      from mem have "new_row (file_url f) \<in> set ?s1"
        by (auto simp: s1)
      then have "Str (file_url f) \<in> PDF_URL ` set ?s1"
        using PDF_URL_new_row [of "file_url f"] by (metis imageI)
      with ne show ?thesis by (simp add: getValues_def)
    qed
    then show ?thesis
      using True Some by (auto simp: unseen_urls_def filter_empty_conv)
  qed
qed

lemma step0_idem:
  assumes urls: "\<And>pdfFolder f. pdf_folder env = Some pdfFolder \<Longrightarrow> f \<in> set pdfFolder \<Longrightarrow> file_url f \<noteq> []"
  shows "step0_addNewPdfs env (step0_addNewPdfs env w) = step0_addNewPdfs env w"
proof -
  let ?w1 = "step0_addNewPdfs env w"
  have "sheet (step0_addNewPdfs env ?w1) = sheet ?w1"
    using step0_sheet [of env ?w1] unseen_after_step0 [OF urls] by simp
  moreover have "folders (step0_addNewPdfs env ?w1) = folders ?w1"
    "requests (step0_addNewPdfs env ?w1) = requests ?w1"
    using step0_rest [of env ?w1] by simp_all
  ultimately show ?thesis by simp
qed

text \<open>
  Claim C9. Where every listed file has a locator (a Drive file always has one), the
  discovery stage appends one new row, holding the locator and nothing else, for each
  listed PDF file whose locator no row of the ledger has, and changes nothing else; after
  it no listed file is unseen, and running it again leaves the ledger as it is.
\<close>

theorem step0_addNewPdfs_discovery:
  assumes urls: "\<And>pdfFolder f. pdf_folder env = Some pdfFolder \<Longrightarrow> f \<in> set pdfFolder \<Longrightarrow> file_url f \<noteq> []"
  shows "sheet (step0_addNewPdfs env w) = sheet w @ map new_row (unseen_urls env w)
    \<and> folders (step0_addNewPdfs env w) = folders w
    \<and> requests (step0_addNewPdfs env w) = requests w
    \<and> unseen_urls env (step0_addNewPdfs env w) = []
    \<and> step0_addNewPdfs env (step0_addNewPdfs env w) = step0_addNewPdfs env w"
  using step0_sheet step0_rest unseen_after_step0 [OF urls] step0_idem [OF urls] by simp

lemma example_urls:
  "pdf_folder example_env = Some pdfFolder \<Longrightarrow> f \<in> set pdfFolder \<Longrightarrow> file_url f \<noteq> []"
  by (auto simp: example_env_def quiz_pdf_def test_pdf_def js_def)

lemma example_unseen: "unseen_urls example_env example_world = [file_url test_pdf]"
  by (simp add: unseen_urls_def example_env_def example_world_def getValues_def
      header_row_def quiz_row_def quiz_pdf_def test_pdf_def js_def)

text \<open>Claim C9 on the small ledger: \<open>Quiz.pdf\<close> has its row, \<open>Test.pdf\<close> is new.\<close>

theorem step0_addNewPdfs_discovery_witness:
  "sheet (step0_addNewPdfs example_env example_world)
     = [header_row, quiz_row, new_row (file_url test_pdf)]
   \<and> step0_addNewPdfs example_env (step0_addNewPdfs example_env example_world)
     = step0_addNewPdfs example_env example_world"
  using step0_addNewPdfs_discovery [of example_env example_world, OF example_urls]
  by (simp add: example_unseen) (simp add: example_world_def)


section \<open>Properties of the serving lookup\<close>

declare scan_rows.simps(2) [simp del]

lemma drop_getValues: "drop 1 (getValues rows) = drop 1 rows"
  by (simp add: getValues_def)

lemma scan_rows_skip:
  "\<not> row_matches env email password r \<Longrightarrow>
   scan_rows env email password (r # rows) = scan_rows env email password rows"
  by (auto simp: scan_rows.simps(2) row_matches_def Let_def)








lemma lower_char_upper: "65 \<le> unat c \<Longrightarrow> unat c \<le> 90 \<Longrightarrow> unat (lower_char c) = unat c + 32"
proof -
  assume a: "65 \<le> unat c" "unat c \<le> 90"
  have "unat c + unat (32 :: uchar) < 2 ^ LENGTH(16)" using a by simp
  then have "unat (c + 32) = unat c + unat (32 :: uchar)" by (simp only: unat_add_lem)
  with a show ?thesis by (simp add: lower_char_def)
qed

lemma lower_char_eq_iff:
  assumes "unat d < 65"
  shows "lower_char c = d \<longleftrightarrow> c = d"
proof (cases "65 \<le> unat c \<and> unat c \<le> 90")
  case True
  then have "unat (lower_char c) = unat c + 32" by (simp add: lower_char_upper)
  with True assms show ?thesis by auto
next
  case False
  then show ?thesis by (auto simp: lower_char_def)
qed

lemma lower_comma: "lower_char c = comma \<longleftrightarrow> c = comma"
  by (rule lower_char_eq_iff) (simp add: comma_def)

lemma lower_semicolon: "lower_char c = semicolon \<longleftrightarrow> c = semicolon"
  by (rule lower_char_eq_iff) (simp add: semicolon_def)

lemma ascii_lower_separators:
  "filter (\<lambda>c. c = comma \<or> c = semicolon) (ascii_lower s)
     = filter (\<lambda>c. c = comma \<or> c = semicolon) s"
proof (induction s)
  case Nil
  show ?case by (simp add: ascii_lower_def)
next
  case (Cons c s)
  have "lower_char c = c" if "c = comma \<or> c = semicolon"
    using that lower_comma [of c] lower_semicolon [of c] by auto
  with Cons show ?case
    by (auto simp: ascii_lower_def lower_comma lower_semicolon)
qed

lemma in_dropWhile: "x \<in> set s \<Longrightarrow> \<not> P x \<Longrightarrow> x \<in> set (dropWhile P s)"
  by (induction s) auto

lemma semicolon_trim: "semicolon \<in> set (trim s) \<longleftrightarrow> semicolon \<in> set s"
proof
  assume "semicolon \<in> set (trim s)"
  then show "semicolon \<in> set s"
    by (auto simp: trim_def dest!: set_dropWhileD)
next
  have ns: "\<not> is_space semicolon" by (simp add: is_space_def semicolon_def)
  assume "semicolon \<in> set s"
  then have "semicolon \<in> set (dropWhile is_space s)" using ns by (rule in_dropWhile)
  then have "semicolon \<in> set (rev (dropWhile is_space s))" by simp
  then have "semicolon \<in> set (dropWhile is_space (rev (dropWhile is_space s)))"
    using ns by (rule in_dropWhile)
  then show "semicolon \<in> set (trim s)" by (simp add: trim_def)
qed

lemma split_on_not_Nil: "split_on d s \<noteq> []"
  by (induction s) (auto split: list.splits)



lemma groups_filter:
  "((\<forall>t \<in> set (split_on comma s). semicolon \<in> set t)
      \<longleftrightarrow> (\<forall>t \<in> set (split_on comma (filter (\<lambda>c. c = comma \<or> c = semicolon) s)). semicolon \<in> set t))
   \<and> ((\<forall>t \<in> set (tl (split_on comma s)). semicolon \<in> set t)
      \<longleftrightarrow> (\<forall>t \<in> set (tl (split_on comma (filter (\<lambda>c. c = comma \<or> c = semicolon) s))). semicolon \<in> set t))"
proof (induction s)
  case Nil
  show ?case by simp
next
  case (Cons c s)
  let ?f = "filter (\<lambda>c. c = comma \<or> c = semicolon) s"
  have ne: "comma \<noteq> semicolon" by (simp add: comma_def semicolon_def)
  obtain w ws where a: "split_on comma s = w # ws"
    using split_on_not_Nil [of comma s] by (cases "split_on comma s") auto
  obtain v vs where b: "split_on comma ?f = v # vs"
    using split_on_not_Nil [of comma ?f] by (cases "split_on comma ?f") auto
  from Cons a b have 1: "(semicolon \<in> set w \<and> (\<forall>t \<in> set ws. semicolon \<in> set t))
      \<longleftrightarrow> (semicolon \<in> set v \<and> (\<forall>t \<in> set vs. semicolon \<in> set t))"
    and 2: "(\<forall>t \<in> set ws. semicolon \<in> set t) \<longleftrightarrow> (\<forall>t \<in> set vs. semicolon \<in> set t)"
    by auto
  consider "c = comma" | "c = semicolon" | "c \<noteq> comma" "c \<noteq> semicolon" by blast
  then show ?case
  proof cases
    case 1
    with a b \<open>(semicolon \<in> set w \<and> (\<forall>t \<in> set ws. semicolon \<in> set t))
      \<longleftrightarrow> (semicolon \<in> set v \<and> (\<forall>t \<in> set vs. semicolon \<in> set t))\<close>
    show ?thesis by simp
  next
    case 2
    with a b ne \<open>(\<forall>t \<in> set ws. semicolon \<in> set t) \<longleftrightarrow> (\<forall>t \<in> set vs. semicolon \<in> set t)\<close>
    show ?thesis by simp
  next
    case 3
    with a b \<open>(semicolon \<in> set w \<and> (\<forall>t \<in> set ws. semicolon \<in> set t))
      \<longleftrightarrow> (semicolon \<in> set v \<and> (\<forall>t \<in> set vs. semicolon \<in> set t))\<close>
      \<open>(\<forall>t \<in> set ws. semicolon \<in> set t) \<longleftrightarrow> (\<forall>t \<in> set vs. semicolon \<in> set t)\<close>
    show ?thesis by auto
  qed
qed

lemma semicolon_filter:
  "semicolon \<in> set (filter (\<lambda>c. c = comma \<or> c = semicolon) s) \<longleftrightarrow> semicolon \<in> set s"
  by auto

lemma semicolon_groups_no_match:
  assumes keeps: "\<And>s. filter (\<lambda>c. c = comma \<or> c = semicolon) (toLowerCase env s)
                        = filter (\<lambda>c. c = comma \<or> c = semicolon) s"
    and ids: "STUDENT_EMAILS r = Str ids"
    and groups: "\<forall>t \<in> set (split_on comma ids). semicolon \<in> set t"
    and email: "semicolon \<notin> set email"
  shows "\<not> row_matches env email password r"
proof
  assume "row_matches env email password r"
  with ids have "trim (toLowerCase env email)
      \<in> set (map trim (split_on comma (toLowerCase env ids)))"
    by (simp add: row_matches_def)
  then obtain t where t: "t \<in> set (split_on comma (toLowerCase env ids))"
    and eq: "trim (toLowerCase env email) = trim t"
    by auto
  have "\<forall>t \<in> set (split_on comma (toLowerCase env ids)). semicolon \<in> set t"
    using groups groups_filter [of ids] groups_filter [of "toLowerCase env ids"] keeps [of ids]
    by simp
  with t have "semicolon \<in> set (trim t)" by (simp add: semicolon_trim)
  then have "semicolon \<in> set (toLowerCase env email)"
    by (simp only: eq [symmetric] semicolon_trim)
  then have "semicolon \<in> set email"
    using semicolon_filter [of "toLowerCase env email"] semicolon_filter [of email] keeps [of email]
    by simp
  with email show False by simp
qed

lemma getAssessmentPdf_rows:
  "sheet_found env \<Longrightarrow> sheet w = header # rows \<Longrightarrow>
   getAssessmentPdf env w email password = scan_rows env email password rows"
  by (simp add: getAssessmentPdf_def getValues_def)



lemma example_toLowerCase: "toLowerCase example_env = ascii_lower"
  by (simp add: example_env_def)



lemma quiz_file_id: "getFileIdFromUrl (file_url quiz_pdf) = Some (js ''abc123'')"
  by (simp add: quiz_pdf_def js_def slash_def is_name_char_def is_word_def is_digit_def hyphen_def)




text \<open>
  Claim C10. The list of identities is split at commas only. When every group between
  commas holds a semicolon, a requester whose identity has no semicolon matches no group:
  the row is passed over, and on a ledger with this row alone the answer is the not-found
  result. The case mapping of \<open>toLowerCase\<close> enters through the one fact that it neither
  makes nor removes a comma or a semicolon.
\<close>

theorem getAssessmentPdf_semicolon_list:
  assumes keeps: "\<And>s. filter (\<lambda>c. c = comma \<or> c = semicolon) (toLowerCase env s)
                        = filter (\<lambda>c. c = comma \<or> c = semicolon) s"
    and ids: "STUDENT_EMAILS r = Str ids"
    and groups: "\<forall>t \<in> set (split_on comma ids). semicolon \<in> set t"
    and email: "semicolon \<notin> set email"
  shows "\<not> row_matches env email password r
    \<and> scan_rows env email password (r # rows) = scan_rows env email password rows
    \<and> (sheet_found env \<and> sheet w = [header, r]
         \<longrightarrow> getAssessmentPdf env w email password = NotFound)"
proof -
  have no: "\<not> row_matches env email password r"
    using assms by (rule semicolon_groups_no_match)
  then have skip: "scan_rows env email password (r # rows) = scan_rows env email password rows" for rows
    by (rule scan_rows_skip)
  have "getAssessmentPdf env w email password = NotFound" if "sheet_found env" "sheet w = [header, r]"
    using that skip [of "[]"] by (simp add: getAssessmentPdf_rows)
  with no skip show ?thesis by simp
qed

lemma semicolon_groups: "split_on comma (js ''a@x.com;b@x.com'') = [js ''a@x.com;b@x.com'']"
  by (simp add: js_def comma_def)

text \<open>Claim C10 for the list \<open>a@x.com;b@x.com\<close> and the requester \<open>a@x.com\<close> with the right
  secret.\<close>

theorem getAssessmentPdf_semicolon_list_witness:
  "STUDENT_EMAILS semicolon_row = Str (js ''a@x.com;b@x.com'')
   \<and> split_on comma (js ''a@x.com;b@x.com'') = [js ''a@x.com;b@x.com'']
   \<and> semicolon \<in> set (js ''a@x.com;b@x.com'')
   \<and> semicolon \<notin> set (js ''a@x.com'')
   \<and> sheet_found example_env \<and> sheet semicolon_world = [header_row, semicolon_row]
   \<and> getAssessmentPdf example_env semicolon_world (js ''a@x.com'') (js ''pw1'') = NotFound"
proof -
  have k: "filter (\<lambda>c. c = comma \<or> c = semicolon) (toLowerCase example_env s)
             = filter (\<lambda>c. c = comma \<or> c = semicolon) s" for s
    by (simp only: example_toLowerCase ascii_lower_separators)
  have a: "STUDENT_EMAILS semicolon_row = Str (js ''a@x.com;b@x.com'')"
    by (simp add: semicolon_row_def)
  have b: "semicolon \<in> set (js ''a@x.com;b@x.com'')" by (simp add: js_def semicolon_def)
  then have c: "\<forall>t \<in> set (split_on comma (js ''a@x.com;b@x.com'')). semicolon \<in> set t"
    by (simp add: semicolon_groups)
  have d: "semicolon \<notin> set (js ''a@x.com'')" by (simp add: js_def semicolon_def)
  have e: "sheet_found example_env" "sheet semicolon_world = [header_row, semicolon_row]"
    by (simp_all add: example_env_def semicolon_world_def)
  from getAssessmentPdf_semicolon_list [OF k a c d, of "js ''pw1''" "[]" semicolon_world header_row] e
  have "getAssessmentPdf example_env semicolon_world (js ''a@x.com'') (js ''pw1'') = NotFound"
    by simp
  with a b d e semicolon_groups show ?thesis by simp
qed





section \<open>Properties of the generation pass\<close>

lemma generateAudio_effect:
  assumes "generateAudioFromTextChunk env text name folder w = (res, w')"
  shows "sheet w' = sheet w \<and> requests w' = requests w @ [(text, name)]
    \<and> (res = None \<longrightarrow> folders w' = folders w \<and> synth env (length (requests w)) text = None)
    \<and> (\<forall>f. res = Some f \<longrightarrow> file_name f = name \<and> f \<in> set (files_of w' folder))"
  using assms
  by (auto simp: generateAudioFromTextChunk_def Let_def files_of_def split: option.splits prod.splits)




lemma audioFile_of_sheet:
  "audioFile_of env b n j c w = (res, w') \<Longrightarrow> sheet w' = sheet w"
  using generateAudio_effect
  by (auto simp: audioFile_of_def Let_def split: list.splits)

lemma chunk_loop_sheet:
  "chunk_loop env b n j chunks objs w = (ok, objs', w') \<Longrightarrow> sheet w' = sheet w"
proof (induction chunks arbitrary: j objs w)
  case Nil
  then show ?case by simp
next
  case (Cons c chunks)
  obtain res w1 where a: "audioFile_of env b n j c w = (res, w1)" by (cases "audioFile_of env b n j c w")
  then have s: "sheet w1 = sheet w" by (rule audioFile_of_sheet)
  show ?case
  proof (cases res)
    case None
    with Cons.prems a s show ?thesis by simp
  next
    case (Some f)
    with Cons.prems a have "chunk_loop env b n (j + 1) chunks (objs @ [f]) w1 = (ok, objs', w')"
      by simp
    then have "sheet w' = sheet w1" by (rule Cons.IH)
    with s show ?thesis by simp
  qed
qed

lemma chunk_loop_length:
  "chunk_loop env b n j chunks objs w = (ok, objs', w') \<Longrightarrow>
   (ok \<longrightarrow> length objs' = length objs + length chunks)
   \<and> (\<not> ok \<longrightarrow> length objs' < length objs + length chunks)"
proof (induction chunks arbitrary: j objs w)
  case Nil
  then show ?case by auto
next
  case (Cons c chunks)
  obtain res w1 where a: "audioFile_of env b n j c w = (res, w1)" by (cases "audioFile_of env b n j c w")
  show ?case
  proof (cases res)
    case None
    with Cons.prems a show ?thesis by auto
  next
    case (Some f)
    with Cons.prems a have "chunk_loop env b n (j + 1) chunks (objs @ [f]) w1 = (ok, objs', w')"
      by simp
    from Cons.IH [OF this] show ?thesis by auto
  qed
qed

lemma chunk_loop_abort:
  "chunk_loop env b n j pre objs w = (True, objs1, w1) \<Longrightarrow>
   audioFile_of env b n (j + length pre) c w1 = (None, w2) \<Longrightarrow>
   chunk_loop env b n j (pre @ c # post) objs w = (False, objs1, w2)"
proof (induction pre arbitrary: j objs w)
  case Nil
  then show ?case by simp
next
  case (Cons p pre)
  obtain res w0 where a: "audioFile_of env b n j p w = (res, w0)" by (cases "audioFile_of env b n j p w")
  show ?case
  proof (cases res)
    case None
    with Cons.prems a show ?thesis by simp
  next
    case (Some f)
    with Cons.prems a have 1: "chunk_loop env b n (j + 1) pre (objs @ [f]) w0 = (True, objs1, w1)"
      by simp
    from Cons.prems have 2: "audioFile_of env b n ((j + 1) + length pre) c w1 = (None, w2)"
      by simp
    from Cons.IH [OF 1 2] a Some show ?thesis by simp
  qed
qed

lemma getOrCreateSubfolder_sheet:
  "getOrCreateSubfolder env name w = Some w1 \<Longrightarrow> sheet w1 = sheet w"
  by (auto simp: getOrCreateSubfolder_def split: if_splits option.splits)

lemma process_row_all_or_nothing:
  assumes "process_row env i r w = (oc, w')"
  shows "sheet w' = sheet w
    \<or> (\<exists>url fileId f textChunks audioFileObjects w1 w2.
          PDF_URL r = Str url \<and> getFileIdFromUrl url = Some fileId
          \<and> getFileById env fileId = Some f
          \<and> getOrCreateSubfolder env (trim (strip_pdf (file_name f))) w = Some w1
          \<and> extractTextFromPdf env fileId = Some textChunks
          \<and> CHUNK_COUNT r = Num (int (length textChunks))
          \<and> chunk_loop env (trim (strip_pdf (file_name f))) (file_name f) 0 textChunks [] w1
                = (True, audioFileObjects, w2)
          \<and> length audioFileObjects = length textChunks
          \<and> oc = Finished
          \<and> w' = w2\<lparr>sheet := finalize env i (audioDataForSheet textChunks audioFileObjects)
                                (sheet w2)\<rparr>
          \<and> sheet w' = finalize env i (audioDataForSheet textChunks audioFileObjects) (sheet w))"
proof (cases "truthy (PDF_URL r) \<and> greater_zero env (CHUNK_COUNT r) \<and> \<not> truthy (IS_COMPLETE r)")
  case False
  with assms show ?thesis by (auto simp: process_row_def Let_def)
next
  case elig: True
  show ?thesis
  proof (cases "PDF_URL r")
    case (Num x)
    with assms elig show ?thesis by (auto simp: process_row_def Let_def)
  next
    case (Bool x)
    with assms elig show ?thesis by (auto simp: process_row_def Let_def)
  next
    case (Str url)
    show ?thesis
    proof (cases "getFileIdFromUrl url")
      case None
      with assms elig Str show ?thesis by (auto simp: process_row_def Let_def)
    next
      case fid: (Some fileId)
      show ?thesis
      proof (cases "getFileById env fileId")
        case None
        with assms elig Str fid show ?thesis by (auto simp: process_row_def Let_def)
      next
        case fl: (Some f)
        let ?base = "trim (strip_pdf (file_name f))"
        show ?thesis
        proof (cases "getOrCreateSubfolder env ?base w")
          case None
          with assms elig Str fid fl show ?thesis by (auto simp: process_row_def Let_def)
        next
          case sub: (Some w1)
          then have s1: "sheet w1 = sheet w" by (rule getOrCreateSubfolder_sheet)
          show ?thesis
          proof (cases "extractTextFromPdf env fileId")
            case None
            with assms elig Str fid fl sub s1 show ?thesis by (auto simp: process_row_def Let_def)
          next
            case ext: (Some textChunks)
            show ?thesis
            proof (cases "Num (int (length textChunks)) \<noteq> CHUNK_COUNT r")
              case True
              with assms elig Str fid fl sub s1 ext show ?thesis
                by (auto simp: process_row_def Let_def)
            next
              case cnt: False
              obtain ok objs w2 where loop:
                "chunk_loop env ?base (file_name f) 0 textChunks [] w1 = (ok, objs, w2)"
                by (cases "chunk_loop env ?base (file_name f) 0 textChunks [] w1") auto
              then have s2: "sheet w2 = sheet w" using s1 chunk_loop_sheet by fastforce
              show ?thesis
              proof (cases "ok \<and> length objs = length textChunks")
                case True
                with assms elig Str fid fl sub ext cnt loop
                have "oc = Finished
                    \<and> w' = w2\<lparr>sheet := finalize env i (audioDataForSheet textChunks objs) (sheet w2)\<rparr>"
                  by (auto simp: process_row_def Let_def)
                moreover from this s2
                have "sheet w' = finalize env i (audioDataForSheet textChunks objs) (sheet w)"
                  by simp
                ultimately show ?thesis using True Str fid fl sub ext cnt loop by auto
              next
                case False
                with assms elig Str fid fl sub ext cnt loop s2 show ?thesis
                  by (auto simp: process_row_def Let_def)
              qed
            qed
          qed
        qed
      qed
    qed
  qed
qed

lemma process_row_loop_fails:
  assumes "PDF_URL r = Str url" "getFileIdFromUrl url = Some fileId"
    "getFileById env fileId = Some f"
    "getOrCreateSubfolder env (trim (strip_pdf (file_name f))) w = Some w1"
    "extractTextFromPdf env fileId = Some textChunks"
    "chunk_loop env (trim (strip_pdf (file_name f))) (file_name f) 0 textChunks [] w1
       = (False, objs, w2)"
  shows "fst (process_row env i r w) = Finished
    \<and> sheet (snd (process_row env i r w)) = sheet w
    \<and> (truthy (PDF_URL r) \<and> greater_zero env (CHUNK_COUNT r) \<and> \<not> truthy (IS_COMPLETE r)
         \<and> CHUNK_COUNT r = Num (int (length textChunks))
        \<longrightarrow> process_row env i r w = (Finished, w2))"
proof (cases "truthy (PDF_URL r) \<and> greater_zero env (CHUNK_COUNT r) \<and> \<not> truthy (IS_COMPLETE r)")
  case False
  then have "process_row env i r w = (Finished, w)"
    by (auto simp: process_row_def Let_def)
  with False show ?thesis by auto
next
  case elig: True
  have s1: "sheet w1 = sheet w" using assms(4) by (rule getOrCreateSubfolder_sheet)
  have s2: "sheet w2 = sheet w1" using assms(6) by (rule chunk_loop_sheet)
  show ?thesis
  proof (cases "Num (int (length textChunks)) \<noteq> CHUNK_COUNT r")
    case True
    with elig assms have "process_row env i r w = (Finished, w1)"
      by (simp add: process_row_def Let_def)
    with s1 True show ?thesis by auto
  next
    case False
    with elig assms have "process_row env i r w = (Finished, w2)"
      by (simp add: process_row_def Let_def)
    with s1 s2 show ?thesis by simp
  qed
qed

lemma existingFiles_folder:
  "existingFiles folder n0 n1 n2 \<noteq> [] \<Longrightarrow> folder \<noteq> []"
  by (auto simp: existingFiles_def getFilesByName_def Let_def split: if_splits)

lemma process_row_third_fails:
  assumes url: "PDF_URL r = Str url" and cnt: "CHUNK_COUNT r = Num 3"
    and inc: "\<not> truthy (IS_COMPLETE r)"
    and fid: "getFileIdFromUrl url = Some fileId" and fl: "getFileById env fileId = Some f"
    and sub: "\<not> subfolder_fails env (trim (strip_pdf (file_name f)))"
    and ext: "extractTextFromPdf env fileId = Some [c0, c1, c2]"
    and e0: "existingFiles (files_of w (trim (strip_pdf (file_name f))))
               (generateSafeFilenameFromText c0 0)
               (trim (strip_pdf (file_name f)) @ chunk_suffix 0)
               (file_name f @ chunk_suffix 0) \<noteq> []"
    and e1: "existingFiles (files_of w (trim (strip_pdf (file_name f))))
               (generateSafeFilenameFromText c1 1)
               (trim (strip_pdf (file_name f)) @ chunk_suffix 1)
               (file_name f @ chunk_suffix 1) \<noteq> []"
    and e2: "existingFiles (files_of w (trim (strip_pdf (file_name f))))
               (generateSafeFilenameFromText c2 2)
               (trim (strip_pdf (file_name f)) @ chunk_suffix 2)
               (file_name f @ chunk_suffix 2) = []"
    and fail: "synth env (length (requests w)) c2 = None"
  shows "process_row env i r w
           = (Finished, w\<lparr>requests := requests w @ [(c2, generateSafeFilenameFromText c2 2)]\<rparr>)"
proof -
  let ?base = "trim (strip_pdf (file_name f))"
  let ?w2 = "w\<lparr>requests := requests w @ [(c2, generateSafeFilenameFromText c2 2)]\<rparr>"
  have "url \<noteq> []" using fid by (cases url) auto
  then have elig: "truthy (PDF_URL r) \<and> greater_zero env (CHUNK_COUNT r) \<and> \<not> truthy (IS_COMPLETE r)"
    using url cnt inc by simp
  have "files_of w ?base \<noteq> []" using e0 by (rule existingFiles_folder)
  then have folder: "getOrCreateSubfolder env ?base w = Some w"
    using sub by (auto simp: getOrCreateSubfolder_def files_of_def split: option.splits)
  from e0 obtain f0 fs0 where f0: "existingFiles (files_of w ?base)
               (generateSafeFilenameFromText c0 0) (?base @ chunk_suffix 0)
               (file_name f @ chunk_suffix 0) = f0 # fs0"
    by (auto simp: neq_Nil_conv)
  from e1 obtain f1 fs1 where f1: "existingFiles (files_of w ?base)
               (generateSafeFilenameFromText c1 1) (?base @ chunk_suffix 1)
               (file_name f @ chunk_suffix 1) = f1 # fs1"
    by (auto simp: neq_Nil_conv)
  have a0: "audioFile_of env ?base (file_name f) 0 c0 w = (Some f0, w)"
    using f0 by (simp add: audioFile_of_def)
  have a1: "audioFile_of env ?base (file_name f) 1 c1 w = (Some f1, w)"
    using f1 by (simp add: audioFile_of_def)
  have a2: "audioFile_of env ?base (file_name f) 2 c2 w = (None, ?w2)"
    using e2 fail by (simp add: audioFile_of_def generateAudioFromTextChunk_def)
  have pre: "chunk_loop env ?base (file_name f) 0 [c0, c1] [] w = (True, [f0, f1], w)"
    using a0 a1 by simp
  have "chunk_loop env ?base (file_name f) 0 ([c0, c1] @ c2 # []) [] w = (False, [f0, f1], ?w2)"
    using pre by (rule chunk_loop_abort) (use a2 in \<open>simp add: numeral_2_eq_2\<close>)
  then have loop: "chunk_loop env ?base (file_name f) 0 [c0, c1, c2] [] w = (False, [f0, f1], ?w2)"
    by simp
  show ?thesis
    using elig url fid fl folder ext cnt loop by (simp add: process_row_def)
qed

lemma finalize_frame:
  "length (finalize env i m rows) = length rows
   \<and> (k \<noteq> i \<longrightarrow> finalize env i m rows ! k = rows ! k)"
  by (simp add: finalize_def)

lemma process_row_frame:
  assumes "process_row env i r w = (oc, w')"
  shows "length (sheet w') = length (sheet w) \<and> (\<forall>k. k \<noteq> i \<longrightarrow> sheet w' ! k = sheet w ! k)"
  using process_row_all_or_nothing [OF assms] finalize_frame by auto

lemma for_rows_frame:
  "for_rows env i rs w = (oc, w') \<Longrightarrow>
   length (sheet w') = length (sheet w)
   \<and> (\<forall>k. k < i \<or> i + length rs \<le> k \<longrightarrow> sheet w' ! k = sheet w ! k)"
proof (induction rs arbitrary: i w)
  case Nil
  then show ?case by simp
next
  case (Cons r rs)
  show ?case
  proof (cases "elapsed env i > SCRIPT_TIMEOUT_MS")
    case True
    with Cons.prems show ?thesis by simp
  next
    case False
    obtain oc1 w1 where p: "process_row env i r w = (oc1, w1)" by (cases "process_row env i r w")
    note fr = process_row_frame [OF p]
    show ?thesis
    proof (cases oc1)
      case Thrown
      with Cons.prems False p fr show ?thesis by auto
    next
      case Finished
      with Cons.prems False p have "for_rows env (i + 1) rs w1 = (oc, w')" by simp
      from Cons.IH [OF this] fr show ?thesis by auto
    qed
  qed
qed

lemma for_rows_timeout:
  "elapsed env k > SCRIPT_TIMEOUT_MS \<Longrightarrow> i \<le> k \<Longrightarrow>
   for_rows env i rs w = for_rows env i (take (k - i) rs) w"
proof (induction rs arbitrary: i w)
  case Nil
  then show ?case by simp
next
  case (Cons r rs)
  show ?case
  proof (cases "i = k")
    case True
    with Cons.prems show ?thesis by simp
  next
    case False
    with Cons.prems have lt: "i < k" by simp
    then have t: "take (k - i) (r # rs) = r # take (k - (i + 1)) rs"
      by (simp add: take_Cons')
    have "for_rows env (i + 1) rs w1 = for_rows env (i + 1) (take (k - (i + 1)) rs) w1" for w1
      using Cons.prems lt by (intro Cons.IH) simp_all
    then show ?thesis
      unfolding t by (simp split: prod.splits outcome.splits)
  qed
qed

lemma generateAudio_clock:
  "generateAudioFromTextChunk (env\<lparr>elapsed := e\<rparr>) t n b w = generateAudioFromTextChunk env t n b w"
  by (simp add: generateAudioFromTextChunk_def)

lemma audioFile_of_clock:
  "audioFile_of (env\<lparr>elapsed := e\<rparr>) b n j c w = audioFile_of env b n j c w"
  by (simp add: audioFile_of_def generateAudio_clock Let_def split: list.splits)

lemma chunk_loop_clock:
  "chunk_loop (env\<lparr>elapsed := e\<rparr>) b n j chunks objs w = chunk_loop env b n j chunks objs w"
  by (induction chunks arbitrary: j objs w) (simp_all add: audioFile_of_clock split: prod.splits option.splits)

lemma greater_zero_clock: "greater_zero (env\<lparr>elapsed := e\<rparr>) c = greater_zero env c"
  by (cases c) simp_all

lemma getOrCreateSubfolder_clock:
  "getOrCreateSubfolder (env\<lparr>elapsed := e\<rparr>) name w = getOrCreateSubfolder env name w"
  by (simp add: getOrCreateSubfolder_def)

lemma extractTextFromPdf_clock:
  "extractTextFromPdf (env\<lparr>elapsed := e\<rparr>) fileId = extractTextFromPdf env fileId"
  by (simp add: extractTextFromPdf_def cong: option.case_cong if_cong)

lemma finalize_clock: "finalize (env\<lparr>elapsed := e\<rparr>) i m rows = finalize env i m rows"
  by (simp add: finalize_def)

lemma process_row_clock:
  "process_row (env\<lparr>elapsed := e\<rparr>) i r w = process_row env i r w"
  by (simp add: process_row_def chunk_loop_clock greater_zero_clock getOrCreateSubfolder_clock
      extractTextFromPdf_clock finalize_clock
      cong: option.case_cong cell.case_cong prod.case_cong if_cong)

lemma quiz_base: "trim (strip_pdf (file_name quiz_pdf)) = js ''Quiz''"
  by (simp add: quiz_pdf_def strip_pdf_def js_def ascii_lower_def lower_char_def trim_def is_space_def)

lemma quiz_chunks: "chunk_text quiz_text = [js ''1. Apple'', js ''2. Banana'', js ''3. Cherry'']"
  by (simp add: quiz_text_def chunk_text_def js_def newline_def item_start_def is_space_def
      is_digit_def dot_def trim_def)

lemma chunk_suffix_1: "chunk_suffix (Suc 0) = js ''-chunk-2.wav''"
  by (simp add: chunk_suffix_def dec_small js_def)

lemma chunk_suffix_2: "chunk_suffix 2 = js ''-chunk-3.wav''"
  by (simp add: chunk_suffix_def dec_small js_def)

lemma sanitized_Banana: "sanitized (js ''2. Banana'') = js ''2-Banana''"
  by (simp add: sanitized_def firstWords_def js_def is_space_def is_word_def is_digit_def
      hyphen_def space_def)

lemma sanitized_Cherry: "sanitized (js ''3. Cherry'') = js ''3-Cherry''"
  by (simp add: sanitized_def firstWords_def js_def is_space_def is_word_def is_digit_def
      hyphen_def space_def)

lemma name_Apple: "generateSafeFilenameFromText (js ''1. Apple'') 0 = js ''1-Apple-chunk-1.wav''"
proof -
  have "length (sanitized (js ''1. Apple'')) + length (chunk_suffix 0) \<le> 250"
    by (simp add: sanitized_Apple chunk_suffix_0) (simp add: js_def)
  from generateSafeFilenameFromText_fits [OF this] show ?thesis
    unfolding sanitized_Apple by (simp add: dec_small js_def)
qed

lemma name_Banana:
  "generateSafeFilenameFromText (js ''2. Banana'') (Suc 0) = js ''2-Banana-chunk-2.wav''"
proof -
  have "length (sanitized (js ''2. Banana'')) + length (chunk_suffix (Suc 0)) \<le> 250"
    by (simp add: sanitized_Banana chunk_suffix_1) (simp add: js_def)
  from generateSafeFilenameFromText_fits [OF this] show ?thesis
    unfolding sanitized_Banana by (simp add: dec_small js_def)
qed

lemma name_Cherry: "generateSafeFilenameFromText (js ''3. Cherry'') 2 = js ''3-Cherry-chunk-3.wav''"
proof -
  have "length (sanitized (js ''3. Cherry'')) + length (chunk_suffix 2) \<le> 250"
    by (simp add: sanitized_Cherry chunk_suffix_2) (simp add: js_def)
  from generateSafeFilenameFromText_fits [OF this] show ?thesis
    unfolding sanitized_Cherry by (simp add: dec_small js_def)
qed

lemma quiz_existing:
  "existingFiles quiz_folder (js ''1-Apple-chunk-1.wav'') (js ''Quiz'' @ js ''-chunk-1.wav'')
     (js ''Quiz.pdf'' @ js ''-chunk-1.wav'') = [apple_wav]"
  "existingFiles quiz_folder (js ''2-Banana-chunk-2.wav'') (js ''Quiz'' @ js ''-chunk-2.wav'')
     (js ''Quiz.pdf'' @ js ''-chunk-2.wav'') = [banana_wav]"
  "existingFiles quiz_folder (js ''3-Cherry-chunk-3.wav'') (js ''Quiz'' @ js ''-chunk-3.wav'')
     (js ''Quiz.pdf'' @ js ''-chunk-3.wav'') = []"
  by (simp_all add: existingFiles_def getFilesByName_def quiz_folder_def apple_wav_def
      banana_wav_def banana_old_wav_def js_def)


lemma quiz_files: "files_of partial_world (js ''Quiz'') = quiz_folder"
  by (simp add: files_of_def partial_world_def)



lemma third_chunk_fails_row:
  assumes "third_chunk_fails env w r ta tb tc"
  shows "process_row env i r w
           = (Finished, w\<lparr>requests := requests w @ [(tc, generateSafeFilenameFromText tc 2)]\<rparr>)"
proof -
  from assms obtain url where url: "PDF_URL r = Str url"
    by (cases "PDF_URL r") (simp_all add: third_chunk_fails_def)
  with assms obtain fileId where fid: "getFileIdFromUrl url = Some fileId"
    by (cases "getFileIdFromUrl url") (simp_all add: third_chunk_fails_def)
  with assms url obtain f where fl: "getFileById env fileId = Some f"
    by (cases "getFileById env fileId") (simp_all add: third_chunk_fails_def)
  from assms url fid fl show ?thesis
    by (intro process_row_third_fails [of r url fileId env f ta tb tc w])
       (simp_all add: third_chunk_fails_def Let_def)
qed

lemma third_chunk_fails_pass:
  assumes sc: "third_chunk_fails env w r ta tb tc"
    and time: "\<not> elapsed env i > SCRIPT_TIMEOUT_MS"
    and run: "for_rows env i (r # rs) w = (oc, w')"
  shows "length (sheet w') = length (sheet w) \<and> sheet w' ! i = sheet w ! i"
proof -
  let ?w2 = "w\<lparr>requests := requests w @ [(tc, generateSafeFilenameFromText tc 2)]\<rparr>"
  from third_chunk_fails_row [OF sc, of i] time run
  have "for_rows env (i + 1) rs ?w2 = (oc, w')" by simp
  from for_rows_frame [OF this] show ?thesis by simp
qed

text \<open>
  Claim C2. Processing a row leaves the sheet as it was, or the loop over the chunks, run
  in the world that the lookup of the folder of the row has left, has ended with a file for
  every chunk, and the row is left in the world at the end of that loop with its two cells
  written together. The loop never writes to the sheet; it ends with success exactly when
  every chunk gave a file. When a chunk gives none after the chunks before it gave one
  each, the loop ends there, in the world right after that attempt, whatever chunks
  follow. For a row with a count of 3 whose first two chunks have a file in the folder,
  whose third has none and whose request fails, processing the row sends that one request
  and changes nothing else; and the pass that reaches such a row within the time ends with
  the row in the sheet as it was: not complete, no manifest. When the loop of the row ends
  without success, processing the row leaves the sheet as it was, and the row is left in
  the world at the end of the loop.
\<close>

theorem generation_all_or_nothing:
  "(process_row env i r w = (oc, w') \<longrightarrow>
      sheet w' = sheet w
      \<or> (\<exists>url fileId f textChunks audioFileObjects w1 w2.
            PDF_URL r = Str url \<and> getFileIdFromUrl url = Some fileId
            \<and> getFileById env fileId = Some f
            \<and> getOrCreateSubfolder env (trim (strip_pdf (file_name f))) w = Some w1
            \<and> extractTextFromPdf env fileId = Some textChunks
            \<and> CHUNK_COUNT r = Num (int (length textChunks))
            \<and> chunk_loop env (trim (strip_pdf (file_name f))) (file_name f) 0 textChunks [] w1
                  = (True, audioFileObjects, w2)
            \<and> length audioFileObjects = length textChunks
            \<and> oc = Finished
            \<and> w' = w2\<lparr>sheet := finalize env i (audioDataForSheet textChunks audioFileObjects)
                                  (sheet w2)\<rparr>
            \<and> sheet w' = finalize env i (audioDataForSheet textChunks audioFileObjects) (sheet w)))
   \<and> (chunk_loop env b n j chunks objs w = (ok, objs', w') \<longrightarrow>
        sheet w' = sheet w
        \<and> (ok \<longrightarrow> length objs' = length objs + length chunks)
        \<and> (\<not> ok \<longrightarrow> length objs' < length objs + length chunks))
   \<and> (chunk_loop env b n j pre objs w = (True, objs1, w1)
        \<and> audioFile_of env b n (j + length pre) c w1 = (None, w2) \<longrightarrow>
        chunk_loop env b n j (pre @ c # post) objs w = (False, objs1, w2))
   \<and> (third_chunk_fails env w r ta tb tc \<longrightarrow>
        process_row env i r w
          = (Finished, w\<lparr>requests := requests w @ [(tc, generateSafeFilenameFromText tc 2)]\<rparr>))
   \<and> (third_chunk_fails env w r ta tb tc \<and> \<not> elapsed env i > SCRIPT_TIMEOUT_MS
        \<and> for_rows env i (r # rs) w = (oc, w') \<longrightarrow>
        length (sheet w') = length (sheet w) \<and> sheet w' ! i = sheet w ! i)
   \<and> (PDF_URL r = Str url \<and> getFileIdFromUrl url = Some fileId
        \<and> getFileById env fileId = Some f
        \<and> getOrCreateSubfolder env (trim (strip_pdf (file_name f))) w = Some wa
        \<and> extractTextFromPdf env fileId = Some textChunks
        \<and> chunk_loop env (trim (strip_pdf (file_name f))) (file_name f) 0 textChunks [] wa
             = (False, objs2, wb) \<longrightarrow>
        fst (process_row env i r w) = Finished
        \<and> sheet (snd (process_row env i r w)) = sheet w
        \<and> (truthy (PDF_URL r) \<and> greater_zero env (CHUNK_COUNT r) \<and> \<not> truthy (IS_COMPLETE r)
             \<and> CHUNK_COUNT r = Num (int (length textChunks))
            \<longrightarrow> process_row env i r w = (Finished, wb)))"
proof (intro conjI)
  show "process_row env i r w = (oc, w') \<longrightarrow>
      sheet w' = sheet w
      \<or> (\<exists>url fileId f textChunks audioFileObjects w1 w2.
            PDF_URL r = Str url \<and> getFileIdFromUrl url = Some fileId
            \<and> getFileById env fileId = Some f
            \<and> getOrCreateSubfolder env (trim (strip_pdf (file_name f))) w = Some w1
            \<and> extractTextFromPdf env fileId = Some textChunks
            \<and> CHUNK_COUNT r = Num (int (length textChunks))
            \<and> chunk_loop env (trim (strip_pdf (file_name f))) (file_name f) 0 textChunks [] w1
                  = (True, audioFileObjects, w2)
            \<and> length audioFileObjects = length textChunks
            \<and> oc = Finished
            \<and> w' = w2\<lparr>sheet := finalize env i (audioDataForSheet textChunks audioFileObjects)
                                  (sheet w2)\<rparr>
            \<and> sheet w' = finalize env i (audioDataForSheet textChunks audioFileObjects) (sheet w))"
    by (rule impI) (rule process_row_all_or_nothing)
next
  show "chunk_loop env b n j chunks objs w = (ok, objs', w') \<longrightarrow>
        sheet w' = sheet w
        \<and> (ok \<longrightarrow> length objs' = length objs + length chunks)
        \<and> (\<not> ok \<longrightarrow> length objs' < length objs + length chunks)"
    using chunk_loop_sheet [of env b n j chunks objs w ok objs' w']
      chunk_loop_length [of env b n j chunks objs w ok objs' w']
    by blast
next
  show "chunk_loop env b n j pre objs w = (True, objs1, w1)
        \<and> audioFile_of env b n (j + length pre) c w1 = (None, w2) \<longrightarrow>
        chunk_loop env b n j (pre @ c # post) objs w = (False, objs1, w2)"
    using chunk_loop_abort by blast
next
  show "third_chunk_fails env w r ta tb tc \<longrightarrow>
        process_row env i r w
          = (Finished, w\<lparr>requests := requests w @ [(tc, generateSafeFilenameFromText tc 2)]\<rparr>)"
    by (rule impI) (rule third_chunk_fails_row)
next
  show "third_chunk_fails env w r ta tb tc \<and> \<not> elapsed env i > SCRIPT_TIMEOUT_MS
        \<and> for_rows env i (r # rs) w = (oc, w') \<longrightarrow>
        length (sheet w') = length (sheet w) \<and> sheet w' ! i = sheet w ! i"
    using third_chunk_fails_pass by blast
next
  show "PDF_URL r = Str url \<and> getFileIdFromUrl url = Some fileId
        \<and> getFileById env fileId = Some f
        \<and> getOrCreateSubfolder env (trim (strip_pdf (file_name f))) w = Some wa
        \<and> extractTextFromPdf env fileId = Some textChunks
        \<and> chunk_loop env (trim (strip_pdf (file_name f))) (file_name f) 0 textChunks [] wa
             = (False, objs2, wb) \<longrightarrow>
        fst (process_row env i r w) = Finished
        \<and> sheet (snd (process_row env i r w)) = sheet w
        \<and> (truthy (PDF_URL r) \<and> greater_zero env (CHUNK_COUNT r) \<and> \<not> truthy (IS_COMPLETE r)
             \<and> CHUNK_COUNT r = Num (int (length textChunks))
            \<longrightarrow> process_row env i r w = (Finished, wb))"
    using process_row_loop_fails [of r url fileId env f w wa textChunks objs2 wb i] by blast
qed

lemma quiz_extract: "extractTextFromPdf example_env (js ''abc123'')
    = Some [js ''1. Apple'', js ''2. Banana'', js ''3. Cherry'']"
  by (simp add: extractTextFromPdf_def example_env_def quiz_chunks) (simp add: quiz_pdf_def)

lemma quiz_row_partial:
  "third_chunk_fails example_env partial_world quiz_row
     (js ''1. Apple'') (js ''2. Banana'') (js ''3. Cherry'')"
proof -
  have n: "file_name quiz_pdf = js ''Quiz.pdf''" by (simp add: quiz_pdf_def)
  have base: "trim (strip_pdf (js ''Quiz.pdf'')) = js ''Quiz''" using quiz_base n by simp
  have e: "existingFiles (files_of partial_world (trim (strip_pdf (file_name quiz_pdf))))
        (generateSafeFilenameFromText (js ''1. Apple'') 0)
        (trim (strip_pdf (file_name quiz_pdf)) @ chunk_suffix 0)
        (file_name quiz_pdf @ chunk_suffix 0) = [apple_wav]"
    "existingFiles (files_of partial_world (trim (strip_pdf (file_name quiz_pdf))))
        (generateSafeFilenameFromText (js ''2. Banana'') (Suc 0))
        (trim (strip_pdf (file_name quiz_pdf)) @ chunk_suffix (Suc 0))
        (file_name quiz_pdf @ chunk_suffix (Suc 0)) = [banana_wav]"
    "existingFiles (files_of partial_world (trim (strip_pdf (file_name quiz_pdf))))
        (generateSafeFilenameFromText (js ''3. Cherry'') 2)
        (trim (strip_pdf (file_name quiz_pdf)) @ chunk_suffix 2)
        (file_name quiz_pdf @ chunk_suffix 2) = []"
    by (simp_all only: n base quiz_files name_Apple name_Banana name_Cherry
        chunk_suffix_0 chunk_suffix_1 chunk_suffix_2 quiz_existing)
  have env: "getFileById example_env (js ''abc123'') = Some quiz_pdf"
    "\<not> subfolder_fails example_env (trim (strip_pdf (file_name quiz_pdf)))"
    "synth example_env (length (requests partial_world)) (js ''3. Cherry'') = None"
    by (simp_all add: example_env_def)
  have r: "PDF_URL quiz_row = Str (file_url quiz_pdf)" "CHUNK_COUNT quiz_row = Num 3"
    "\<not> truthy (IS_COMPLETE quiz_row)"
    by (simp_all add: quiz_row_def)
  show ?thesis
    unfolding third_chunk_fails_def using e env r quiz_file_id quiz_extract
    by (simp add: Let_def)
qed

text \<open>Claim C2 on the small ledger, where the folder has the files of the first two chunks
  and every request fails: the pass sends the request for the third chunk and leaves the
  row incomplete, without a manifest.\<close>

theorem generation_all_or_nothing_witness:
  "third_chunk_fails example_env partial_world quiz_row
     (js ''1. Apple'') (js ''2. Banana'') (js ''3. Cherry'')
   \<and> process_row example_env 1 quiz_row partial_world
     = (Finished, partial_world\<lparr>requests := [(js ''3. Cherry'', js ''3-Cherry-chunk-3.wav'')]\<rparr>)
   \<and> step2_GenerateMissingAudioAndFinalize example_env partial_world
     = (Finished, partial_world\<lparr>requests := [(js ''3. Cherry'', js ''3-Cherry-chunk-3.wav'')]\<rparr>)
   \<and> sheet (snd (step2_GenerateMissingAudioAndFinalize example_env partial_world))
     = [header_row, quiz_row]
   \<and> IS_COMPLETE quiz_row = Bool False \<and> AUDIO_JSON quiz_row = blank"
proof -
  from generation_all_or_nothing [where env = example_env and i = 1 and r = quiz_row
      and w = partial_world and ta = "js ''1. Apple''" and tb = "js ''2. Banana''"
      and tc = "js ''3. Cherry''",
      THEN conjunct2, THEN conjunct2, THEN conjunct2, THEN conjunct1, THEN mp,
      OF quiz_row_partial]
  have "process_row example_env 1 quiz_row partial_world
     = (Finished, partial_world\<lparr>requests := requests partial_world
          @ [(js ''3. Cherry'', generateSafeFilenameFromText (js ''3. Cherry'') 2)]\<rparr>)" .
  then have row: "process_row example_env 1 quiz_row partial_world
     = (Finished, partial_world\<lparr>requests := [(js ''3. Cherry'', js ''3-Cherry-chunk-3.wav'')]\<rparr>)"
    by (simp add: name_Cherry) (simp add: partial_world_def)
  have "step2_GenerateMissingAudioAndFinalize example_env partial_world
          = for_rows example_env 1 [quiz_row] partial_world"
    by (simp add: step2_GenerateMissingAudioAndFinalize_def example_env_def partial_world_def
        getValues_def)
  also have "\<dots> = (Finished, partial_world\<lparr>requests := [(js ''3. Cherry'', js ''3-Cherry-chunk-3.wav'')]\<rparr>)"
    using row by (simp add: SCRIPT_TIMEOUT_MS_def) (simp add: example_env_def)
  finally have pass: "step2_GenerateMissingAudioAndFinalize example_env partial_world
     = (Finished, partial_world\<lparr>requests := [(js ''3. Cherry'', js ''3-Cherry-chunk-3.wav'')]\<rparr>)" .
  have "IS_COMPLETE quiz_row = Bool False" "AUDIO_JSON quiz_row = blank"
    by (simp_all add: quiz_row_def)
  with quiz_row_partial row pass show ?thesis by (simp add: partial_world_def)
qed

text \<open>
  Claim C7. The ceiling is five minutes. When the time that iteration \<open>k\<close> of the row loop
  reads is above it, the pass is the pass over the rows before row \<open>k\<close> alone, and every
  row from \<open>k\<close> on is in the sheet as it was. What is done for a row does not depend on
  the clock: the time is read between rows only.
\<close>

theorem step2_time_budget:
  assumes late: "elapsed env k > SCRIPT_TIMEOUT_MS" and k: "1 \<le> k"
  shows "length (sheet (snd (step2_GenerateMissingAudioAndFinalize env w))) = length (sheet w)
    \<and> drop k (sheet (snd (step2_GenerateMissingAudioAndFinalize env w))) = drop k (sheet w)
    \<and> for_rows env 1 (drop 1 (getValues (sheet w))) w
        = for_rows env 1 (take (k - 1) (drop 1 (getValues (sheet w)))) w
    \<and> process_row (env\<lparr>elapsed := clock\<rparr>) i r v = process_row env i r v
    \<and> SCRIPT_TIMEOUT_MS = 5 * 60 * 1000"
proof -
  let ?data = "drop 1 (getValues (sheet w))"
  have cut: "for_rows env 1 ?data w = for_rows env 1 (take (k - 1) ?data) w"
    using late k by (rule for_rows_timeout)
  obtain oc w' where run: "step2_GenerateMissingAudioAndFinalize env w = (oc, w')"
    by (cases "step2_GenerateMissingAudioAndFinalize env w")
  have frame: "length (sheet w') = length (sheet w) \<and> (\<forall>m. k \<le> m \<longrightarrow> sheet w' ! m = sheet w ! m)"
  proof (cases "main_folder_found env \<and> sheet_found env")
    case False
    with run show ?thesis
      by (auto simp: step2_GenerateMissingAudioAndFinalize_def split: if_splits)
  next
    case True
    with run cut have "for_rows env 1 (take (k - 1) ?data) w = (oc, w')"
      by (simp add: step2_GenerateMissingAudioAndFinalize_def)
    from for_rows_frame [OF this] k show ?thesis by auto
  qed
  then have "drop k (sheet w') = drop k (sheet w)"
    by (intro nth_equalityI) simp_all
  with frame run cut show ?thesis
    by (simp add: process_row_clock SCRIPT_TIMEOUT_MS_def)
qed

lemma late_env_fields:
  "getFileById late_env = getFileById example_env" "synth late_env = synth example_env"
  "subfolder_fails late_env = subfolder_fails example_env"
  "main_folder_found late_env" "sheet_found late_env"
  "elapsed late_env 1 = 1000" "elapsed late_env 2 = 301000"
  by (simp_all add: late_env_def example_env_def)

text \<open>Claim C7 on a ledger of two rows, with the ceiling passed when the second row is
  reached.\<close>

theorem step2_time_budget_witness:
  "elapsed late_env 2 > SCRIPT_TIMEOUT_MS
   \<and> sheet two_row_world = [header_row, quiz_row, test_row]
   \<and> drop 2 (sheet (snd (step2_GenerateMissingAudioAndFinalize late_env two_row_world))) = [test_row]
   \<and> for_rows late_env 1 [quiz_row, test_row] two_row_world
       = for_rows late_env 1 [quiz_row] two_row_world"
proof -
  have a: "elapsed late_env 2 > SCRIPT_TIMEOUT_MS"
    by (simp add: late_env_fields SCRIPT_TIMEOUT_MS_def)
  have b: "sheet two_row_world = [header_row, quiz_row, test_row]"
    by (simp add: two_row_world_def)
  from step2_time_budget [OF a, where w = two_row_world] b
  have "drop 2 (sheet (snd (step2_GenerateMissingAudioAndFinalize late_env two_row_world))) = [test_row]"
    and "for_rows late_env 1 [quiz_row, test_row] two_row_world
       = for_rows late_env 1 [quiz_row] two_row_world"
    by (simp_all add: getValues_def)
  with a b show ?thesis by simp
qed

end
